theory Spec2Isabelle
  imports Complex_Main
begin

section \<open>Count-Min Sketch (src/count-min-sketch.ts)\<close>

subsection \<open>Numbers\<close>

text \<open>
  The values the sketch stores, adds and returns are JavaScript numbers: IEEE 754
  double precision values. A finite double is kept as the real number it denotes; the
  other values are \<open>Infinity\<close>, \<open>-Infinity\<close> and \<open>NaN\<close>. The sign of zero is not kept
  (no operation of the sketch depends on it). Reading an array outside its bounds yields
  \<open>undefined\<close>, and both \<open>undefined + c\<close> and \<open>Math.min(undefined, m)\<close> are \<open>NaN\<close>, so a
  missing array element is read as \<open>NaN\<close>.
\<close>

datatype number = Num real | Infinity | NegInfinity | NaN

text \<open>
  Rounding a real number to the nearest double, ties to even. A double has 53
  significant bits, so the magnitude is scaled by powers of two into the range from
  \<open>2^52\<close> up to \<open>2^53\<close>, where the doubles are the integers; the exponent of the scaling
  is the exponent of the unit in the last place, and it is never below \<open>-1074\<close>, where
  the subnormal numbers lie. \<open>scale_down\<close> halves a magnitude of \<open>2^53\<close> or more,
  \<open>scale_up\<close> doubles one below \<open>2^52\<close>.
\<close>

function scale_down :: "real \<Rightarrow> int \<Rightarrow> real \<times> int" where
  "scale_down a e = (if 2 ^ 53 \<le> a then scale_down (a / 2) (e + 1) else (a, e))"
  by pat_completeness auto
termination
proof (relation "measure (\<lambda>(a, e). nat \<lceil>a\<rceil>)")
  show "wf (measure (\<lambda>(a, e). nat \<lceil>a\<rceil>))" by simp
next
  fix a :: real and e :: int
  assume a: "2 ^ 53 \<le> a"
  then have "a / 2 + 1 \<le> a" by simp
  moreover have "\<lceil>a / 2\<rceil> < \<lceil>a / 2 + 1\<rceil>" by simp
  ultimately have "\<lceil>a / 2\<rceil> < \<lceil>a\<rceil>"
    by (meson ceiling_mono less_le_trans)
  moreover have "0 < \<lceil>a\<rceil>"
    using a by (simp add: ceiling_less_iff [symmetric] less_le_trans [of 0 "2 ^ 53"])
  ultimately show "((a / 2, e + 1), (a, e)) \<in> measure (\<lambda>(a, e). nat \<lceil>a\<rceil>)"
    by simp
qed

function scale_up :: "real \<Rightarrow> int \<Rightarrow> real \<times> int" where
  "scale_up a e = (if a < 2 ^ 52 \<and> - 1074 < e then scale_up (2 * a) (e - 1) else (a, e))"
  by pat_completeness auto
termination
  by (relation "measure (\<lambda>(a, e). nat (e + 1074))") auto

definition ulp_exponent :: "real \<Rightarrow> int" where
  "ulp_exponent x = (let (a, e) = scale_down \<bar>x\<bar> 0 in snd (scale_up a e))"

definition round_half_even :: "real \<Rightarrow> int" where
  "round_half_even m =
     (let f = \<lfloor>m\<rfloor>; d = m - of_int f
      in if d < 1 / 2 then f else if 1 / 2 < d then f + 1 else if even f then f else f + 1)"

text \<open>A result of magnitude \<open>2^1024\<close> or more after rounding overflows to an infinity.\<close>

definition overflow_threshold :: real where
  "overflow_threshold = 2 ^ 1024"

definition round_double :: "real \<Rightarrow> number" where
  "round_double x =
     (if x = 0 then Num 0
      else
        (let e = ulp_exponent x;
             y = of_int (round_half_even (x / 2 powi e)) * 2 powi e
         in if overflow_threshold \<le> y then Infinity
            else if y \<le> - overflow_threshold then NegInfinity
            else Num y))"

text \<open>
  A finite double: a real number that rounding leaves as it is. The integers up to
  \<open>2^53\<close> in magnitude are doubles; \<open>2^53 + 1\<close> is not.
\<close>

fun finite_double :: "number \<Rightarrow> bool" where
  "finite_double (Num v) = (round_double v = Num v)"
| "finite_double Infinity = False"
| "finite_double NegInfinity = False"
| "finite_double NaN = False"

text \<open>\<open>a + b\<close> on numbers: the exact sum of two finite doubles, rounded.\<close>

fun plus_number :: "number \<Rightarrow> number \<Rightarrow> number" where
  "plus_number (Num a) (Num b) = round_double (a + b)"
| "plus_number NaN _ = NaN"
| "plus_number _ NaN = NaN"
| "plus_number Infinity NegInfinity = NaN"
| "plus_number NegInfinity Infinity = NaN"
| "plus_number Infinity _ = Infinity"
| "plus_number _ Infinity = Infinity"
| "plus_number NegInfinity _ = NegInfinity"
| "plus_number _ NegInfinity = NegInfinity"

text \<open>
  \<open>a / b\<close> on numbers: the exact quotient of two finite doubles, rounded; a division by
  zero gives an infinity with the sign of the dividend, or \<open>NaN\<close> for \<open>0 / 0\<close>.
\<close>

fun divide_number :: "number \<Rightarrow> number \<Rightarrow> number" where
  "divide_number (Num a) (Num b) =
     (if b = 0 then (if a = 0 then NaN else if 0 < a then Infinity else NegInfinity)
      else round_double (a / b))"
| "divide_number NaN _ = NaN"
| "divide_number _ NaN = NaN"
| "divide_number (Num a) Infinity = Num 0"
| "divide_number (Num a) NegInfinity = Num 0"
| "divide_number Infinity (Num b) = (if 0 \<le> b then Infinity else NegInfinity)"
| "divide_number NegInfinity (Num b) = (if 0 \<le> b then NegInfinity else Infinity)"
| "divide_number Infinity Infinity = NaN"
| "divide_number Infinity NegInfinity = NaN"
| "divide_number NegInfinity Infinity = NaN"
| "divide_number NegInfinity NegInfinity = NaN"

fun Math_min :: "number \<Rightarrow> number \<Rightarrow> number" where
  "Math_min NaN _ = NaN"
| "Math_min _ NaN = NaN"
| "Math_min NegInfinity _ = NegInfinity"
| "Math_min _ NegInfinity = NegInfinity"
| "Math_min Infinity b = b"
| "Math_min a Infinity = a"
| "Math_min (Num a) (Num b) = Num (min a b)"

text \<open>\<open>Math.ceil\<close>: the least integer not below a finite double is a double again.\<close>

fun Math_ceil :: "number \<Rightarrow> number" where
  "Math_ceil (Num a) = Num (of_int \<lceil>a\<rceil>)"
| "Math_ceil Infinity = Infinity"
| "Math_ceil NegInfinity = NegInfinity"
| "Math_ceil NaN = NaN"

text \<open>
  \<open>Math.E\<close>: the double nearest to Euler's number, \<open>2.718281828459045\<close>, with the bits
  \<open>0x4005BF0A8B145769\<close>.
\<close>

definition Math_E :: real where
  "Math_E = 6121026514868073 / 2 ^ 51"


subsection \<open>Arrays\<close>

text \<open>
  \<open>indexes[i]\<close>: the element, or \<open>undefined\<close> (here \<open>None\<close>) when \<open>i\<close> is not an index
  of the array.
\<close>

definition array_index :: "'a list \<Rightarrow> nat \<Rightarrow> 'a option" where
  "array_index xs i = (if i < length xs then Some (xs ! i) else None)"

text \<open>\<open>row[j]\<close> read as a number, where \<open>j\<close> itself may be \<open>undefined\<close>.\<close>

definition array_get :: "number list \<Rightarrow> nat option \<Rightarrow> number" where
  "array_get row j =
     (case j of
        None \<Rightarrow> NaN
      | Some k \<Rightarrow> if k < length row then row ! k else NaN)"

text \<open>
  \<open>row[j] = v\<close>. Assigning beyond the end extends the array; the elements in between
  are holes, which read as \<open>undefined\<close> and are kept as \<open>NaN\<close>. Assigning to
  \<open>row[undefined]\<close> sets a property named "undefined" and leaves the elements alone.
\<close>

definition array_set :: "number list \<Rightarrow> nat option \<Rightarrow> number \<Rightarrow> number list" where
  "array_set row j v =
     (case j of
        None \<Rightarrow> row
      | Some k \<Rightarrow>
          if k < length row then row[k := v]
          else row @ replicate (k - length row) NaN @ [v])"

subsection \<open>The store of row arrays\<close>

text \<open>
  The matrix of a sketch is an array of row arrays. The rows are mutable objects that
  several holders may reference (\<open>import\<close> copies only the outer array of its payload),
  so they live in a store: an address is a position in the list of all row arrays
  allocated so far. Addresses are only ever produced by \<open>alloc\<close>.
\<close>

type_synonym addr = nat
type_synonym store = "number list list"

definition alloc :: "number list \<Rightarrow> store \<Rightarrow> addr \<times> store" where
  "alloc row h = (length h, h @ [row])"

subsection \<open>Errors\<close>

text \<open>
  The source throws plain \<open>Error\<close> objects; the constructors carry the names of the
  specification's taxonomy. \<open>IncompatibleShape\<close> stands for the two errors of \<open>merge\<close>
  ("Cannot merge two sketches with different number of columns" and "... of rows"),
  \<open>FormatError\<close> for the error of the import function, \<open>TypeError\<close> for the engine's
  error on reading a property of \<open>undefined\<close>, \<open>ParameterError\<close> for a failure of the
  index generator or of the allocation of an array.
\<close>

datatype error = IncompatibleShape | FormatError | ParameterError | TypeError

subsection \<open>The sketch\<close>

record CountMinSketch =
  columns :: nat
  rows :: nat
  matrix :: "addr list"
  N :: number
  seed :: nat

text \<open>
  Modelled from the spec: \<open>utils.getDefaultSeed\<close> is not among the sources; "the default
  seed is the constant \<open>0x1234567890\<close>", which every structure carries from its
  construction (the README prints it as 78187493520).
\<close>

definition getDefaultSeed :: nat where
  "getDefaultSeed = 78187493520"

text \<open>
  Modelled from the spec: \<open>utils.allocateArray(size, default)\<close> is not among the sources.
  It builds the rows of the "\<open>d \<times> w\<close> matrix" of counters: called with a constant
  default, it returns a new array of \<open>size\<close> elements, each the default.
\<close>

definition allocateArray_const :: "nat \<Rightarrow> number \<Rightarrow> store \<Rightarrow> addr \<times> store" where
  "allocateArray_const n v h = alloc (replicate n v) h"

text \<open>
  Modelled from the spec: \<open>utils.allocateArray(size, default)\<close>, not among the sources,
  called with a function as default: it builds the outer array of the "\<open>d \<times> w\<close> matrix",
  each element the result of a call of its own of the function, element 0 first.
\<close>

fun allocateArray :: "nat \<Rightarrow> (store \<Rightarrow> 'a \<times> store) \<Rightarrow> store \<Rightarrow> 'a list \<times> store" where
  "allocateArray 0 getDefault h = ([], h)"
| "allocateArray (Suc n) getDefault h =
     (let (x, h1) = getDefault h;
          (xs, h2) = allocateArray n getDefault h1
      in (x # xs, h2))"

text \<open>
  \<open>constructor (w = 2048, d = 1, seed = utils.getDefaultSeed())\<close>. An omitted argument
  is \<open>None\<close>. The body never reads \<open>seed\<close>: the seed of the new sketch is the one the
  base class sets, the default seed.
\<close>

definition CountMinSketch_new ::
  "nat option \<Rightarrow> nat option \<Rightarrow> nat option \<Rightarrow> store \<Rightarrow> CountMinSketch \<times> store" where
  "CountMinSketch_new w d seed_arg h =
     (let w' = (case w of None \<Rightarrow> 2048 | Some n \<Rightarrow> n);
          d' = (case d of None \<Rightarrow> 1 | Some n \<Rightarrow> n);
          (m, h') = allocateArray d' (allocateArray_const w' (Num 0)) h
      in (\<lparr>columns = w', rows = d', matrix = m, N = Num 0, seed = getDefaultSeed\<rparr>, h'))"

text \<open>
  Modelled from the spec: the size that \<open>utils.allocateArray\<close>, which is not among the
  sources, is given by \<open>create\<close>. A number is the size of an array when it is a natural
  number; any other number is among the "invalid sizing inputs" of a ParameterError.
\<close>

definition array_length :: "number \<Rightarrow> nat option" where
  "array_length v =
     (case v of
        Num r \<Rightarrow> if 0 \<le> r \<and> r = of_int \<lfloor>r\<rfloor> then Some (nat \<lfloor>r\<rfloor>) else None
      | _ \<Rightarrow> None)"

text \<open>
  \<open>static create (epsilon = 0.001, delta = 0.999)\<close>: \<open>w = Math.ceil(Math.E / epsilon)\<close>,
  \<open>d = Math.ceil(Math.log(1 / delta))\<close>, then \<open>new CountMinSketch(w, d)\<close>. The literals
  are the doubles nearest to \<open>0.001\<close> and \<open>0.999\<close>. \<open>Math.log\<close> is a function of the
  engine, whose results the language leaves to the implementation: it is a parameter.
\<close>

definition CountMinSketch_create ::
  "(number \<Rightarrow> number) \<Rightarrow> number option \<Rightarrow> number option \<Rightarrow> store
     \<Rightarrow> error + CountMinSketch \<times> store" where
  "CountMinSketch_create Math_log epsilon delta h =
     (let eps = (case epsilon of None \<Rightarrow> round_double (1 / 1000) | Some x \<Rightarrow> x);
          del = (case delta of None \<Rightarrow> round_double (999 / 1000) | Some x \<Rightarrow> x);
          w = Math_ceil (divide_number (Num Math_E) eps);
          d = Math_ceil (Math_log (divide_number (Num 1) del))
      in case array_length w of
           None \<Rightarrow> Inl ParameterError
         | Some w' \<Rightarrow>
             (case array_length d of
                None \<Rightarrow> Inl ParameterError
              | Some d' \<Rightarrow> Inr (CountMinSketch_new (Some w') (Some d') None h)))"

subsection \<open>update and count\<close>

text \<open>
  \<open>utils.getDistinctIndices(element, size, number, seed)\<close> is not among the sources. The
  operations take it as a parameter: a function from the element, the number of columns,
  the number of rows and the seed to either an error or the array of indexes.
\<close>

type_synonym 'e index_generator = "'e \<Rightarrow> nat \<Rightarrow> nat \<Rightarrow> nat \<Rightarrow> error + nat list"

text \<open>
  Modelled from the spec: the result of \<open>utils.getDistinctIndices\<close>, which is not among
  the sources. "\<open>distinctIndices(bytes, range, k, seed)\<close> \<rightarrow> \<open>k\<close> distinct integers in
  \<open>0..range\<close>": \<open>distinct_indices r n k\<close> says that the result \<open>r\<close> of a call is such
  an array, for the range \<open>n\<close>, and not an error.
\<close>

fun distinct_indices :: "error + nat list \<Rightarrow> nat \<Rightarrow> nat \<Rightarrow> bool" where
  "distinct_indices (Inl e) n k = False"
| "distinct_indices (Inr indexes) n k =
     (length indexes = k \<and> distinct indexes \<and> list_all (\<lambda>j. j < n) indexes)"

text \<open>
  The loop of \<open>update\<close>: \<open>for (let i = 0; i < this._rows; i++)
  this._matrix[i][indexes[i]] += count\<close>. Reading an element of \<open>this._matrix[i]\<close> when
  the matrix has no row \<open>i\<close> throws a TypeError.
\<close>

function update_loop ::
  "nat list \<Rightarrow> number \<Rightarrow> CountMinSketch \<Rightarrow> nat \<Rightarrow> store \<Rightarrow> error option \<times> store" where
  "update_loop indexes c this i h =
     (if i < rows this then
        (case array_index (matrix this) i of
           None \<Rightarrow> (Some TypeError, h)
         | Some a \<Rightarrow>
             (let j = array_index indexes i;
                  row = h ! a
              in update_loop indexes c this (Suc i)
                   (h[a := array_set row j (plus_number (array_get row j) c)])))
      else (None, h))"
  by pat_completeness auto
termination
  by (relation "measure (\<lambda>(indexes, c, this, i, h). rows this - i)") auto

text \<open>
  \<open>update (element, count = 1)\<close>: the weight \<open>None\<close> is the omitted argument. The result
  is the error thrown, if any, with the receiver and the store as the call leaves them:
  \<open>_N\<close> is already increased when the index generator or the loop throws.
\<close>

definition CountMinSketch_update ::
  "'e index_generator \<Rightarrow> 'e \<Rightarrow> number option \<Rightarrow> CountMinSketch \<Rightarrow> store
     \<Rightarrow> error option \<times> CountMinSketch \<times> store" where
  "CountMinSketch_update getDistinctIndices element cnt this h =
     (let c = (case cnt of None \<Rightarrow> Num 1 | Some n \<Rightarrow> n);
          this1 = this\<lparr>N := plus_number (N this) c\<rparr>
      in case getDistinctIndices element (columns this1) (rows this1) (seed this1) of
           Inl e \<Rightarrow> (Some e, this1, h)
         | Inr indexes \<Rightarrow>
             (let (r, h') = update_loop indexes c this1 0 h in (r, this1, h')))"

text \<open>
  The loop of \<open>count\<close>: \<open>const v = this._matrix[i][indexes[i]]; min = Math.min(v, min)\<close>.
\<close>

function count_loop ::
  "nat list \<Rightarrow> CountMinSketch \<Rightarrow> store \<Rightarrow> nat \<Rightarrow> number \<Rightarrow> error + number" where
  "count_loop indexes this h i mn =
     (if i < rows this then
        (case array_index (matrix this) i of
           None \<Rightarrow> Inl TypeError
         | Some a \<Rightarrow>
             (let v = array_get (h ! a) (array_index indexes i)
              in count_loop indexes this h (Suc i) (Math_min v mn)))
      else Inr mn)"
  by pat_completeness auto
termination
  by (relation "measure (\<lambda>(indexes, this, h, i, mn). rows this - i)") auto

definition CountMinSketch_count ::
  "'e index_generator \<Rightarrow> 'e \<Rightarrow> CountMinSketch \<Rightarrow> store \<Rightarrow> error + number" where
  "CountMinSketch_count getDistinctIndices element this h =
     (case getDistinctIndices element (columns this) (rows this) (seed this) of
        Inl e \<Rightarrow> Inl e
      | Inr indexes \<Rightarrow> count_loop indexes this h 0 Infinity)"

subsection \<open>merge and clone\<close>

text \<open>
  The inner loop of \<open>merge\<close>: \<open>for (let j = 0; j < this._columns; j++)
  this._matrix[i][j] += sketch._matrix[i][j]\<close>.
\<close>

function merge_columns ::
  "CountMinSketch \<Rightarrow> CountMinSketch \<Rightarrow> nat \<Rightarrow> nat \<Rightarrow> store \<Rightarrow> error option \<times> store" where
  "merge_columns this sketch i j h =
     (if j < columns this then
        (case array_index (matrix this) i of
           None \<Rightarrow> (Some TypeError, h)
         | Some a \<Rightarrow>
             (case array_index (matrix sketch) i of
                None \<Rightarrow> (Some TypeError, h)
              | Some b \<Rightarrow>
                  merge_columns this sketch i (Suc j)
                    (h[a := array_set (h ! a) (Some j)
                              (plus_number (array_get (h ! a) (Some j))
                                           (array_get (h ! b) (Some j)))])))
      else (None, h))"
  by pat_completeness auto
termination
  by (relation "measure (\<lambda>(this, sketch, i, j, h). columns this - j)") auto

text \<open>The outer loop: \<open>for (let i = 0; i < this._rows; i++)\<close>.\<close>

function merge_rows ::
  "CountMinSketch \<Rightarrow> CountMinSketch \<Rightarrow> nat \<Rightarrow> store \<Rightarrow> error option \<times> store" where
  "merge_rows this sketch i h =
     (if i < rows this then
        (case merge_columns this sketch i 0 h of
           (Some e, h') \<Rightarrow> (Some e, h')
         | (None, h') \<Rightarrow> merge_rows this sketch (Suc i) h')
      else (None, h))"
  by pat_completeness auto
termination
  by (relation "measure (\<lambda>(this, sketch, i, h). rows this - i)") auto

text \<open>
  \<open>merge (sketch)\<close>: the two checks, then the loops. No field of the receiver is
  assigned; the receiver is returned as it is, beside the store.
\<close>

definition CountMinSketch_merge ::
  "CountMinSketch \<Rightarrow> CountMinSketch \<Rightarrow> store \<Rightarrow> error option \<times> CountMinSketch \<times> store" where
  "CountMinSketch_merge this sketch h =
     (if columns this \<noteq> columns sketch then (Some IncompatibleShape, this, h)
      else if rows this \<noteq> rows sketch then (Some IncompatibleShape, this, h)
      else (let (r, h') = merge_rows this sketch 0 h in (r, this, h')))"

text \<open>
  \<open>clone ()\<close>: a new sketch of the same size, merged with the receiver, then given the
  receiver's seed.
\<close>

definition CountMinSketch_clone ::
  "CountMinSketch \<Rightarrow> store \<Rightarrow> (error + CountMinSketch) \<times> store" where
  "CountMinSketch_clone this h =
     (let (sketch, h1) = CountMinSketch_new (Some (columns this)) (Some (rows this)) None h;
          (r, sketch1, h2) = CountMinSketch_merge sketch this h1
      in case r of
           Some e \<Rightarrow> (Inl e, h2)
         | None \<Rightarrow> (Inr (sketch1\<lparr>seed := seed this\<rparr>), h2))"

subsection \<open>Export and import\<close>

text \<open>
  The exported record: its type tag and the five fields of the sketch. A field that the
  payload does not have is \<open>None\<close>; the matrix is an array of references to row arrays.
  The types fix that a field that is present holds a value of its kind.
\<close>

record json =
  json_type :: "string option"
  json_matrix :: "addr list option"
  json_seed :: "nat option"
  json_N :: "number option"
  json_rows :: "nat option"
  json_columns :: "nat option"

text \<open>
  Modelled from the spec: the copy of the "raw backing arrays" that the export holds; the
  helpers of \<open>export-import-specs\<close> are not among the sources. Each row array is copied
  into a new array, row 0 first.
\<close>

fun cloneField :: "addr list \<Rightarrow> store \<Rightarrow> addr list \<times> store" where
  "cloneField [] h = ([], h)"
| "cloneField (a # as) h =
     (let (b, h1) = alloc (h ! a) h;
          (bs, h2) = cloneField as h1
      in (b # bs, h2))"

text \<open>
  Modelled from the spec: the export function \<open>cloneObject('CountMinSketch', '_matrix',
  '_seed', '_N', '_rows', '_columns')\<close>; \<open>cloneObject\<close> is not among the sources. The export
  is "a self-describing record: a type tag, the seed, structural sizes, and the raw
  backing arrays", here with the tag and the fields named in the call.
\<close>

definition CountMinSketch_export :: "CountMinSketch \<Rightarrow> store \<Rightarrow> json \<times> store" where
  "CountMinSketch_export this h =
     (let (m, h') = cloneField (matrix this) h
      in (\<lparr>json_type = Some ''CountMinSketch'', json_matrix = Some m,
           json_seed = Some (seed this), json_N = Some (N this),
           json_rows = Some (rows this), json_columns = Some (columns this)\<rparr>, h'))"

text \<open>
  Modelled from the spec: \<open>assertFields(json, '_matrix', '_seed', '_N', '_rows',
  '_columns')\<close>; \<open>assertFields\<close> is not among the sources. It is the check of the decoder
  for a "missing field": true when every field named is present.
\<close>

definition assertFields :: "json \<Rightarrow> bool" where
  "assertFields j =
     (json_matrix j \<noteq> None \<and> json_seed j \<noteq> None \<and> json_N j \<noteq> None \<and>
      json_rows j \<noteq> None \<and> json_columns j \<noteq> None)"

text \<open>
  The import function. \<open>json._matrix.slice()\<close> copies the outer array only: the new
  sketch references the row arrays of the payload. Calling \<open>slice\<close> on a missing
  \<open>_matrix\<close> would be a TypeError; an assignment from a missing \<open>_N\<close> or \<open>_seed\<close> has no
  value in the model and keeps the field (the check before excludes all three).
\<close>

definition CountMinSketch_import :: "json \<Rightarrow> store \<Rightarrow> (error + CountMinSketch) \<times> store" where
  "CountMinSketch_import j h =
     (if json_type j \<noteq> Some ''CountMinSketch'' \<or> \<not> assertFields j
      then (Inl FormatError, h)
      else
        (let (sketch, h1) = CountMinSketch_new (json_columns j) (json_rows j) None h
         in case json_matrix j of
              None \<Rightarrow> (Inl TypeError, h1)
            | Some m \<Rightarrow>
                (let sketch1 = sketch\<lparr>matrix := m\<rparr>;
                     sketch2 = (case json_N j of
                                  None \<Rightarrow> sketch1 | Some n \<Rightarrow> sketch1\<lparr>N := n\<rparr>);
                     sketch3 = (case json_seed j of
                                  None \<Rightarrow> sketch2 | Some s \<Rightarrow> sketch2\<lparr>seed := s\<rparr>)
                 in (Inr sketch3, h1))))"

subsection \<open>Well-formed sketches\<close>

text \<open>
  What the constructor establishes and every operation keeps: the matrix has \<open>_rows\<close>
  rows, all different arrays of the store, each of \<open>_columns\<close> finite doubles. (A cell
  leaves the finite doubles only when a sum overflows or a weight is not finite.)
\<close>

definition wf :: "CountMinSketch \<Rightarrow> store \<Rightarrow> bool" where
  "wf this h =
     (length (matrix this) = rows this \<and> distinct (matrix this) \<and>
      list_all (\<lambda>a. a < length h \<and> length (h ! a) = columns this \<and>
                     list_all finite_double (h ! a))
        (matrix this))"

text \<open>The part of well-formedness that does not look at the contents of the cells.\<close>

definition well_shaped :: "CountMinSketch \<Rightarrow> store \<Rightarrow> bool" where
  "well_shaped this h =
     (length (matrix this) = rows this \<and> distinct (matrix this) \<and>
      list_all (\<lambda>a. a < length h \<and> length (h ! a) = columns this) (matrix this))"

text \<open>The matrix as a value: the contents of the rows, in order.\<close>

definition matrix_of :: "CountMinSketch \<Rightarrow> store \<Rightarrow> number list list" where
  "matrix_of this h = map (\<lambda>a. h ! a) (matrix this)"

text \<open>
  Two sketches are aligned when a row array that both reference is referenced at the same
  row position in both. Sketches that share no row array are aligned, and so is a sketch
  with itself.
\<close>

definition rows_aligned :: "CountMinSketch \<Rightarrow> CountMinSketch \<Rightarrow> bool" where
  "rows_aligned this sketch =
     list_all (\<lambda>i. list_all (\<lambda>k. matrix this ! i = matrix sketch ! k \<longrightarrow> i = k)
                       [0..<length (matrix sketch)])
       [0..<length (matrix this)]"

subsection \<open>Sequences of updates\<close>

text \<open>
  A caller running \<open>update(element, c)\<close> for each pair of a list in turn; an error stops
  the run, as the exception would. For a list of updates with integer weights,
  \<open>integer_weights\<close> gives the weights as numbers, and \<open>true_count ops x\<close> is the sum of the
  weights of the updates of \<open>ops\<close> whose element is \<open>x\<close>.
\<close>

fun updates ::
  "'e index_generator \<Rightarrow> ('e \<times> number) list \<Rightarrow> CountMinSketch \<Rightarrow> store
     \<Rightarrow> error option \<times> CountMinSketch \<times> store" where
  "updates getDistinctIndices [] this h = (None, this, h)"
| "updates getDistinctIndices ((element, c) # ops) this h =
     (case CountMinSketch_update getDistinctIndices element (Some c) this h of
        (Some e, this', h') \<Rightarrow> (Some e, this', h')
      | (None, this', h') \<Rightarrow> updates getDistinctIndices ops this' h')"

definition integer_weights :: "('e \<times> int) list \<Rightarrow> ('e \<times> number) list" where
  "integer_weights ops = map (\<lambda>(element, c). (element, Num (of_int c))) ops"

fun true_count :: "('e \<times> int) list \<Rightarrow> 'e \<Rightarrow> int" where
  "true_count [] x = 0"
| "true_count ((element, c) # ops) x = (if element = x then c else 0) + true_count ops x"

text \<open>
  An index generator for the closed instances below, on natural numbers as elements:
  consecutive columns from \<open>element + seed\<close>, and an error when more indexes are asked
  for than there are columns. It stands for nothing in the sources.
\<close>

definition example_indices :: "nat index_generator" where
  "example_indices x w d s =
     (if w < d then Inl ParameterError
      else Inr (map (\<lambda>i. (x + s + i) mod w) [0..<d]))"

text \<open>A new sketch of 3 columns and 2 rows in an empty store, for the closed instances.\<close>

definition example_sketch :: CountMinSketch where
  "example_sketch = fst (CountMinSketch_new (Some 3) (Some 2) None [])"

definition example_store :: store where
  "example_store = snd (CountMinSketch_new (Some 3) (Some 2) None [])"

text \<open>
  The example sketch after \<open>update(5)\<close>; a second sketch of the same size, built next
  and given the seed 1; a third sketch, of 4 columns, built last.
\<close>

definition example_updated :: "error option \<times> CountMinSketch \<times> store" where
  "example_updated = CountMinSketch_update example_indices 5 None example_sketch example_store"

definition example_other :: "CountMinSketch \<times> store" where
  "example_other =
     (let (sketch, h) = CountMinSketch_new (Some 3) (Some 2) None (snd (snd example_updated))
      in (sketch\<lparr>seed := 1\<rparr>, h))"

definition example_wide :: "CountMinSketch \<times> store" where
  "example_wide = CountMinSketch_new (Some 4) (Some 2) None (snd example_other)"

text \<open>The example sketch after \<open>update(5, 2^53)\<close>.\<close>

definition example_big :: "error option \<times> CountMinSketch \<times> store" where
  "example_big =
     CountMinSketch_update example_indices 5 (Some (Num (2 ^ 53))) example_sketch example_store"

text \<open>
  A stand-in for \<open>Math.log\<close> in the closed instances: at 2 it returns the double
  \<open>0.6931471805599453\<close> that engines return, elsewhere \<open>NaN\<close>.
\<close>

definition example_log :: "number \<Rightarrow> number" where
  "example_log v = (if v = Num 2 then Num (6243314768165359 / 2 ^ 53) else NaN)"

text \<open>The export of the example sketch after its update.\<close>

definition example_exported :: "json \<times> store" where
  "example_exported =
     CountMinSketch_export (fst (snd example_updated)) (snd (snd example_updated))"

text \<open>The effect of \<open>row[j] += c\<close> on the row.\<close>

definition row_add :: "number list \<Rightarrow> nat \<Rightarrow> number \<Rightarrow> number list" where
  "row_add row j c = array_set row (Some j) (plus_number (array_get row (Some j)) c)"

declare update_loop.simps [simp del] count_loop.simps [simp del]
  merge_columns.simps [simp del] merge_rows.simps [simp del]
  scale_down.simps [simp del] scale_up.simps [simp del]

section \<open>Properties\<close>

subsection \<open>Rounding to a double\<close>

lemma scale_down_props:
  "scale_down a e = (a', e') \<Longrightarrow>
   e \<le> e' \<and> a = a' * 2 powi (e' - e) \<and> a' < 2 ^ 53 \<and> (e < e' \<longrightarrow> 2 ^ 52 \<le> a')"
proof (induction a e rule: scale_down.induct)
  case (1 a e)
  show ?case
  proof (cases "(2::real) ^ 53 \<le> a")
    case False
    with "1.prems" show ?thesis by (simp add: scale_down.simps [of a e])
  next
    case True
    then have step: "scale_down (a / 2) (e + 1) = (a', e')"
      using "1.prems" by (simp add: scale_down.simps [of a e])
    from "1.IH" [OF True step]
    have ih: "e + 1 \<le> e'" "a / 2 = a' * 2 powi (e' - (e + 1))" "a' < 2 ^ 53"
      "e + 1 < e' \<longrightarrow> 2 ^ 52 \<le> a'"
      by blast+
    have "a = a' * 2 powi (e' - e)"
    proof -
      have "(2::real) powi (e' - e) = 2 powi (e' - (e + 1)) * 2"
        using power_int_add_1 [of "2::real" "e' - (e + 1)"] by simp
      with ih(2) show ?thesis by simp
    qed
    moreover have "2 ^ 52 \<le> a'"
    proof (cases "e + 1 < e'")
      case True
      with ih(4) show ?thesis by simp
    next
      case False
      with ih(1) have "e' = e + 1" by simp
      with ih(2) have "a' = a / 2" by simp
      with True show ?thesis by simp
    qed
    ultimately show ?thesis using ih by simp
  qed
qed

lemma scale_up_props:
  "scale_up a e = (a', e') \<Longrightarrow> - 1074 \<le> e \<Longrightarrow>
   e' \<le> e \<and> - 1074 \<le> e' \<and> a' = a * 2 powi (e - e') \<and>
   (2 ^ 52 \<le> a' \<or> e' = - 1074) \<and> (a < 2 ^ 53 \<longrightarrow> a' < 2 ^ 53)"
proof (induction a e rule: scale_up.induct)
  case (1 a e)
  show ?case
  proof (cases "a < 2 ^ 52 \<and> - 1074 < e")
    case False
    with "1.prems" show ?thesis by (auto simp: scale_up.simps [of a e])
  next
    case True
    then have step: "scale_up (2 * a) (e - 1) = (a', e')"
      using "1.prems" by (simp add: scale_up.simps [of a e])
    have "- 1074 \<le> e - 1" using True by simp
    from "1.IH" [OF True step this]
    have ih: "e' \<le> e - 1" "- 1074 \<le> e'" "a' = 2 * a * 2 powi (e - 1 - e')"
      "2 ^ 52 \<le> a' \<or> e' = - 1074" "2 * a < 2 ^ 53 \<longrightarrow> a' < 2 ^ 53"
      by blast+
    have "(2::real) powi (e - e') = 2 powi (e - 1 - e') * 2"
      using power_int_add_1 [of "2::real" "e - 1 - e'"] by simp
    with ih(3) have "a' = a * 2 powi (e - e')" by simp
    with ih True show ?thesis by auto
  qed
qed

lemma ulp_exponent_props:
  "- 1074 \<le> ulp_exponent x \<and> \<bar>x\<bar> / 2 powi ulp_exponent x < 2 ^ 53 \<and>
   (- 1074 < ulp_exponent x \<longrightarrow> 2 ^ 52 \<le> \<bar>x\<bar> / 2 powi ulp_exponent x) \<and>
   (\<bar>x\<bar> < 2 ^ 53 \<longrightarrow> ulp_exponent x \<le> 0)"
proof -
  obtain a1 e1 where sd: "scale_down \<bar>x\<bar> 0 = (a1, e1)" by (cases "scale_down \<bar>x\<bar> 0")
  obtain a2 e2 where su: "scale_up a1 e1 = (a2, e2)" by (cases "scale_up a1 e1")
  have e: "ulp_exponent x = e2" by (simp add: ulp_exponent_def sd su)
  from scale_down_props [OF sd]
  have d: "0 \<le> e1" "\<bar>x\<bar> = a1 * 2 powi e1" "a1 < 2 ^ 53"
    by (simp_all del: power_int_eq_0_iff)
  have "- 1074 \<le> e1" using d(1) by simp
  from scale_up_props [OF su this]
  have u: "e2 \<le> e1" "- 1074 \<le> e2" "a2 = a1 * 2 powi (e1 - e2)" "2 ^ 52 \<le> a2 \<or> e2 = - 1074"
    "a2 < 2 ^ 53"
    using d(3) by blast+
  have a2: "\<bar>x\<bar> / 2 powi e2 = a2"
    using d(2) u(3) by (simp add: power_int_diff)
  have small: "e2 \<le> 0" if "\<bar>x\<bar> < 2 ^ 53"
  proof -
    have "scale_down \<bar>x\<bar> 0 = (\<bar>x\<bar>, 0)"
      using that by (simp add: scale_down.simps [of "\<bar>x\<bar>" 0])
    with sd have "e1 = 0" by simp
    with u(1) show ?thesis by simp
  qed
  show ?thesis
    unfolding e a2 using u(2,4,5) small by auto
qed


lemma round_half_even_of_int [simp]: "round_half_even (of_int n) = n"
  by (simp add: round_half_even_def)


lemma round_double_nonzero:
  "x \<noteq> 0 \<Longrightarrow> round_double x =
     (if overflow_threshold
           \<le> real_of_int (round_half_even (x / 2 powi ulp_exponent x)) * 2 powi ulp_exponent x
      then Infinity
      else if real_of_int (round_half_even (x / 2 powi ulp_exponent x)) * 2 powi ulp_exponent x
              \<le> - overflow_threshold
      then NegInfinity
      else Num (real_of_int (round_half_even (x / 2 powi ulp_exponent x)) * 2 powi ulp_exponent x))"
  by (simp add: round_double_def Let_def)

lemma overflow_threshold_large: "2 ^ 53 < overflow_threshold"
  by (simp add: overflow_threshold_def)

lemma round_double_small_int:
  assumes "\<bar>k\<bar> < 2 ^ 53"
  shows "round_double (of_int k) = Num (of_int k)"
proof (cases "k = 0")
  case True
  then show ?thesis by (simp add: round_double_def)
next
  case False
  let ?e = "ulp_exponent (of_int k)"
  have small: "\<bar>real_of_int k\<bar> < 2 ^ 53"
    using assms by (metis of_int_abs of_int_less_numeral_power_cancel_iff)
  then have e: "?e \<le> 0" using ulp_exponent_props [of "of_int k"] by simp
  have p: "(2::real) powi ?e = 1 / 2 ^ nat (- ?e)"
    using e power_int_minus_divide [of "2::real" "- ?e"] by (simp add: power_int_nonneg_exp)
  have q: "real_of_int k / 2 powi ?e = real_of_int (k * 2 ^ nat (- ?e))"
    by (simp add: p)
  have y: "real_of_int (round_half_even (real_of_int k / 2 powi ?e)) * 2 powi ?e = real_of_int k"
    unfolding q round_half_even_of_int by (simp add: p)
  have b: "\<not> overflow_threshold \<le> real_of_int k" "\<not> real_of_int k \<le> - overflow_threshold"
    using small overflow_threshold_large by linarith+
  show ?thesis
    using False b by (simp add: round_double_nonzero y)
qed

lemma round_double_2_53: "round_double (2 ^ 53) = Num (2 ^ 53)"
  by (simp add: round_double_def overflow_threshold_def ulp_exponent_def scale_down.simps
        scale_up.simps round_half_even_def)

lemma round_double_neg_2_53: "round_double (- (2 ^ 53)) = Num (- (2 ^ 53))"
  by (simp add: round_double_def overflow_threshold_def ulp_exponent_def scale_down.simps
        scale_up.simps round_half_even_def)

lemma round_double_2_53_plus_1: "round_double (2 ^ 53 + 1) = Num (2 ^ 53)"
  by (simp add: round_double_def overflow_threshold_def ulp_exponent_def scale_down.simps
        scale_up.simps round_half_even_def)

lemma round_double_of_int:
  assumes "\<bar>k\<bar> \<le> 2 ^ 53"
  shows "round_double (of_int k) = Num (of_int k)"
proof -
  consider "\<bar>k\<bar> < 2 ^ 53" | "k = 2 ^ 53" | "k = - (2 ^ 53)"
    using assms by linarith
  then show ?thesis
  proof cases
    case 1
    then show ?thesis by (rule round_double_small_int)
  next
    case 2
    then show ?thesis using round_double_2_53 by simp
  next
    case 3
    then show ?thesis using round_double_neg_2_53 by simp
  qed
qed


lemma finite_double_of_int: "\<bar>k\<bar> \<le> 2 ^ 53 \<Longrightarrow> finite_double (Num (of_int k))"
  by (simp add: round_double_of_int)

lemma round_double_0 [simp]: "round_double 0 = Num 0"
  by (simp add: round_double_def)

lemma round_double_1 [simp]: "round_double 1 = Num 1"
  using round_double_of_int [of 1] by simp

lemma round_double_2 [simp]: "round_double 2 = Num 2"
  using round_double_of_int [of 2] by simp

lemma round_double_4 [simp]: "round_double 4 = Num 4"
  using round_double_of_int [of 4] by simp

lemma round_double_5 [simp]: "round_double 5 = Num 5"
  using round_double_of_int [of 5] by simp

lemma plus_number_zero: "finite_double v \<Longrightarrow> plus_number (Num 0) v = v"
  by (cases v) simp_all

lemma plus_number_int:
  "\<bar>a + b\<bar> \<le> 2 ^ 53 \<Longrightarrow>
   plus_number (Num (of_int a)) (Num (of_int b)) = Num (of_int (a + b))"
  using round_double_of_int [of "a + b"] by simp



subsection \<open>The constructor\<close>

lemma allocateArray_rows:
  "allocateArray d (allocateArray_const w v) h =
     ([length h ..< length h + d], h @ replicate d (replicate w v))"
proof (induction d arbitrary: h)
  case 0
  show ?case by simp
next
  case (Suc d)
  have step: "allocateArray_const w v h = (length h, h @ [replicate w v])"
    by (simp add: allocateArray_const_def alloc_def)
  have rest: "allocateArray d (allocateArray_const w v) (h @ [replicate w v]) =
      ([Suc (length h) ..< Suc (length h) + d], (h @ [replicate w v]) @ replicate d (replicate w v))"
    using Suc [of "h @ [replicate w v]"] by simp
  have "[length h ..< length h + Suc d] = length h # [Suc (length h) ..< Suc (length h) + d]"
    by (simp add: upt_conv_Cons del: upt_Suc)
  then show ?case
    by (simp add: step rest replicate_app_Cons_same del: upt_Suc)
qed

lemma new_eq:
  "CountMinSketch_new (Some w) (Some d) s h =
     (\<lparr>columns = w, rows = d, matrix = [length h ..< length h + d], N = Num 0,
       seed = getDefaultSeed\<rparr>, h @ replicate d (replicate w (Num 0)))"
  by (simp add: CountMinSketch_new_def allocateArray_rows)

lemma new_wf:
  "CountMinSketch_new (Some w) (Some d) s h = (this, h') \<Longrightarrow> wf this h'"
  by (auto simp: new_eq wf_def list_all_iff nth_append)

lemma new_matrix_of:
  "CountMinSketch_new (Some w) (Some d) s h = (this, h') \<Longrightarrow>
   matrix_of this h' = replicate d (replicate w (Num 0))"
  by (auto simp: new_eq matrix_of_def nth_append intro!: nth_equalityI)

text \<open>
  C9. The seed argument of the constructor has no effect: for all \<open>w\<close>, \<open>d\<close> and every
  seed \<open>s\<close>, \<open>new CountMinSketch(w, d, s)\<close> builds the same sketch (and leaves the same
  store) as \<open>new CountMinSketch(w, d)\<close>, and that sketch carries the default seed, not \<open>s\<close>.
\<close>

theorem constructor_ignores_seed:
  "CountMinSketch_new w d (Some s) h = CountMinSketch_new w d None h \<and>
   seed (fst (CountMinSketch_new w d (Some s) h)) = getDefaultSeed"
  by (simp add: CountMinSketch_new_def Let_def split: prod.split)

lemma example_sketch_eq:
  "example_sketch =
     \<lparr>columns = 3, rows = 2, matrix = [0, 1], N = Num 0, seed = getDefaultSeed\<rparr>"
  by (simp add: example_sketch_def new_eq upt_rec)

lemma example_store_eq:
  "example_store = [[Num 0, Num 0, Num 0], [Num 0, Num 0, Num 0]]"
  by (simp add: example_store_def new_eq numeral_2_eq_2 numeral_3_eq_3)

lemma example_wf: "wf example_sketch example_store"
  by (simp add: example_sketch_eq example_store_eq wf_def)

lemma example_indices_5: "example_indices 5 3 2 getDefaultSeed = Inr [2, 0]"
  by (simp add: example_indices_def getDefaultSeed_def upt_rec)

lemma example_indices_7: "example_indices 7 3 2 getDefaultSeed = Inr [1, 2]"
  by (simp add: example_indices_def getDefaultSeed_def upt_rec)

subsection \<open>The loops of update and count\<close>

lemma wf_well_shaped: "wf this h \<Longrightarrow> well_shaped this h"
  by (simp add: wf_def well_shaped_def list_all_iff)

lemma wf_rows:
  "wf this h \<Longrightarrow> a \<in> set (matrix this) \<Longrightarrow>
   a < length h \<and> length (h ! a) = columns this \<and> list_all finite_double (h ! a)"
  by (simp add: wf_def list_all_iff)


lemma update_loop_effect:
  assumes "length (matrix this) = rows this" and "distinct (matrix this)"
    and "\<forall>a\<in>set (matrix this). a < length h" and "length indexes = rows this"
  shows "\<exists>h'. update_loop indexes c this i h = (None, h') \<and> length h' = length h \<and>
           (\<forall>k<rows this. h' ! (matrix this ! k) =
              (if i \<le> k then row_add (h ! (matrix this ! k)) (indexes ! k) c
               else h ! (matrix this ! k))) \<and>
           (\<forall>a. a \<notin> set (matrix this) \<longrightarrow> h' ! a = h ! a)"
  using assms
proof (induction indexes c this i h rule: update_loop.induct)
  case (1 indexes c this i h)
  show ?case
  proof (cases "i < rows this")
    case False
    then show ?thesis by (subst update_loop.simps) simp
  next
    case True
    define a where "a = matrix this ! i"
    define h1 where "h1 = h[a := row_add (h ! a) (indexes ! i) c]"
    have a_in: "a \<in> set (matrix this)" and a_lt: "a < length h"
      using True "1.prems" by (auto simp: a_def)
    have unfold: "update_loop indexes c this i h = update_loop indexes c this (Suc i) h1"
      using True "1.prems"
      by (subst update_loop.simps) (simp add: array_index_def a_def h1_def row_add_def Let_def)
    have "\<forall>a\<in>set (matrix this). a < length h1"
      using "1.prems" by (simp add: h1_def)
    from "1.IH" [OF True, of a "array_index indexes i" "h ! a"] this "1.prems"
    obtain h' where h': "update_loop indexes c this (Suc i) h1 = (None, h')"
      "length h' = length h1"
      "\<forall>k<rows this. h' ! (matrix this ! k) =
              (if Suc i \<le> k then row_add (h1 ! (matrix this ! k)) (indexes ! k) c
               else h1 ! (matrix this ! k))"
      "\<forall>a. a \<notin> set (matrix this) \<longrightarrow> h' ! a = h1 ! a"
      using True
      by (auto simp: array_index_def a_def h1_def row_add_def Let_def)
    have other: "k < rows this \<Longrightarrow> k \<noteq> i \<Longrightarrow> h1 ! (matrix this ! k) = h ! (matrix this ! k)" for k
      using True "1.prems" by (auto simp: h1_def a_def nth_eq_iff_index_eq)
    have self: "h1 ! (matrix this ! i) = row_add (h ! a) (indexes ! i) c"
      using a_lt by (simp add: h1_def a_def)
    have "\<forall>k<rows this. h' ! (matrix this ! k) =
              (if i \<le> k then row_add (h ! (matrix this ! k)) (indexes ! k) c
               else h ! (matrix this ! k))"
    proof (intro allI impI)
      fix k assume k: "k < rows this"
      show "h' ! (matrix this ! k) =
              (if i \<le> k then row_add (h ! (matrix this ! k)) (indexes ! k) c
               else h ! (matrix this ! k))"
      proof (cases "k = i")
        case True
        then show ?thesis using h'(3) k self by (simp add: a_def)
      next
        case False
        then show ?thesis using h'(3) k other [OF k False] by auto
      qed
    qed
    moreover have "\<forall>b. b \<notin> set (matrix this) \<longrightarrow> h' ! b = h ! b"
      using h'(4) a_in by (metis h1_def nth_list_update_neq)
    ultimately show ?thesis
      using h' unfold by (simp add: h1_def)
  qed
qed

lemma row_add_in_range:
  "j < length row \<Longrightarrow> row_add row j c = row[j := plus_number (row ! j) c]"
  by (simp add: row_add_def array_set_def array_get_def)

lemma update_effect:
  fixes cnt :: "number option"
  assumes ws: "well_shaped this h"
    and gen: "getDistinctIndices x (columns this) (rows this) (seed this) = Inr indexes"
    and ok: "distinct_indices (Inr indexes) (columns this) (rows this)"
  defines "c \<equiv> (case cnt of None \<Rightarrow> Num 1 | Some n \<Rightarrow> n)"
  shows "\<exists>h'. CountMinSketch_update getDistinctIndices x cnt this h =
                 (None, this\<lparr>N := plus_number (N this) c\<rparr>, h') \<and>
              length h' = length h \<and>
              well_shaped (this\<lparr>N := plus_number (N this) c\<rparr>) h' \<and>
              (\<forall>k<rows this. h' ! (matrix this ! k) =
                 (h ! (matrix this ! k))[indexes ! k :=
                    plus_number (h ! (matrix this ! k) ! (indexes ! k)) c]) \<and>
              (\<forall>a. a \<notin> set (matrix this) \<longrightarrow> h' ! a = h ! a)"
proof -
  let ?this1 = "this\<lparr>N := plus_number (N this) c\<rparr>"
  have shape: "length (matrix ?this1) = rows ?this1" "distinct (matrix ?this1)"
    "\<forall>a\<in>set (matrix ?this1). a < length h" "length indexes = rows ?this1"
    using ws ok by (auto simp: well_shaped_def list_all_iff)
  from update_loop_effect [OF shape, of c 0]
  obtain h' where h': "update_loop indexes c ?this1 0 h = (None, h')" "length h' = length h"
    "\<forall>k<rows this. h' ! (matrix this ! k) = row_add (h ! (matrix this ! k)) (indexes ! k) c"
    "\<forall>a. a \<notin> set (matrix this) \<longrightarrow> h' ! a = h ! a"
    by auto
  have inr: "k < rows this \<Longrightarrow> indexes ! k < length (h ! (matrix this ! k))" for k
    using ws ok by (auto simp: well_shaped_def list_all_iff)
  have rows': "\<forall>k<rows this. h' ! (matrix this ! k) =
                 (h ! (matrix this ! k))[indexes ! k :=
                    plus_number (h ! (matrix this ! k) ! (indexes ! k)) c]"
    using h'(3) inr by (simp add: row_add_in_range)
  have "a < length h' \<and> length (h' ! a) = columns this"
    if "a \<in> set (matrix this)" for a
  proof -
    from that obtain k where k: "k < rows this" "a = matrix this ! k"
      using shape(1) by (auto simp: in_set_conv_nth)
    have "length (h ! a) = columns this" "a < length h"
      using ws that by (auto simp: well_shaped_def list_all_iff)
    with rows' k h'(2) show ?thesis by simp
  qed
  then have "well_shaped ?this1 h'"
    using shape by (simp add: well_shaped_def list_all_iff)
  moreover have "CountMinSketch_update getDistinctIndices x cnt this h = (None, ?this1, h')"
    using gen h'(1) by (simp add: CountMinSketch_update_def c_def Let_def)
  ultimately show ?thesis
    using h'(2,4) rows' by blast
qed

lemma count_loop_fold:
  "length (matrix this) = rows this \<Longrightarrow>
   count_loop indexes this h i mn =
     Inr (fold Math_min
            (map (\<lambda>k. array_get (h ! (matrix this ! k)) (array_index indexes k)) [i..<rows this])
            mn)"
proof (induction indexes this h i mn rule: count_loop.induct)
  case (1 indexes this h i mn)
  show ?case
  proof (cases "i < rows this")
    case False
    then show ?thesis by (subst count_loop.simps) simp
  next
    case True
    then have "[i..<rows this] = i # [Suc i..<rows this]"
      by (simp add: upt_conv_Cons)
    with True "1.prems" "1.IH" [OF True, of "matrix this ! i"] show ?thesis
      by (subst count_loop.simps) (simp add: array_index_def Let_def)
  qed
qed

lemma fold_min_lower:
  "\<forall>u\<in>set vs. \<exists>v. u = Num v \<and> t \<le> v \<Longrightarrow> \<exists>v. mn = Num v \<and> t \<le> v \<Longrightarrow>
   \<exists>v. fold Math_min vs mn = Num v \<and> t \<le> v"
  by (induction vs arbitrary: mn) auto

lemma fold_min_lower_Infinity:
  "\<forall>u\<in>set vs. \<exists>v. u = Num v \<and> t \<le> v \<Longrightarrow> vs \<noteq> [] \<Longrightarrow>
   \<exists>v. fold Math_min vs Infinity = Num v \<and> t \<le> v"
  by (cases vs) (auto intro!: fold_min_lower)


lemma count_effect:
  assumes ws: "well_shaped this h"
    and gen: "getDistinctIndices x (columns this) (rows this) (seed this) = Inr indexes"
    and ok: "distinct_indices (Inr indexes) (columns this) (rows this)"
  shows "CountMinSketch_count getDistinctIndices x this h =
           Inr (fold Math_min (map (\<lambda>k. h ! (matrix this ! k) ! (indexes ! k)) [0..<rows this])
                  Infinity)"
proof -
  have len: "length (matrix this) = rows this" using ws by (simp add: well_shaped_def)
  have "array_get (h ! (matrix this ! k)) (array_index indexes k) =
          h ! (matrix this ! k) ! (indexes ! k)" if "k < rows this" for k
    using ws ok that by (auto simp: well_shaped_def list_all_iff array_get_def array_index_def)
  then have eq: "map (\<lambda>k. array_get (h ! (matrix this ! k)) (array_index indexes k)) [0..<rows this]
           = map (\<lambda>k. h ! (matrix this ! k) ! (indexes ! k)) [0..<rows this]"
    by simp
  show ?thesis
    by (simp only: CountMinSketch_count_def gen sum.case count_loop_fold [OF len] eq)
qed

lemma update_cell:
  fixes cnt :: "number option"
  assumes ws: "well_shaped this h"
    and gen: "getDistinctIndices e (columns this) (rows this) (seed this) = Inr indexes"
    and ok: "distinct_indices (Inr indexes) (columns this) (rows this)"
    and upd: "CountMinSketch_update getDistinctIndices e cnt this h = (r, this', h')"
    and k: "k < rows this" and j: "j < columns this"
  defines "c \<equiv> (case cnt of None \<Rightarrow> Num 1 | Some n \<Rightarrow> n)"
  shows "h' ! (matrix this ! k) ! j =
           (if j = indexes ! k then plus_number (h ! (matrix this ! k) ! j) c
            else h ! (matrix this ! k) ! j)"
proof -
  have "matrix this ! k \<in> set (matrix this)"
    using ws k by (simp add: well_shaped_def)
  then have len: "length (h ! (matrix this ! k)) = columns this"
    using ws by (auto simp: well_shaped_def list_all_iff)
  from update_effect [where getDistinctIndices = getDistinctIndices and x = e and cnt = cnt,
      OF ws gen ok] upd
  have "h' ! (matrix this ! k) = (h ! (matrix this ! k))[indexes ! k :=
          plus_number (h ! (matrix this ! k) ! (indexes ! k)) c]"
    using k by (auto simp: c_def)
  then show ?thesis
    using j len by (auto simp: nth_list_update)
qed

lemmas double_eval = round_double_def overflow_threshold_def ulp_exponent_def
  scale_down.simps scale_up.simps round_half_even_def

lemma example_updated_eq:
  "example_updated =
     (None, \<lparr>columns = 3, rows = 2, matrix = [0, 1], N = Num 1, seed = getDefaultSeed\<rparr>,
      [[Num 0, Num 0, Num 1], [Num 1, Num 0, Num 0]])"
  by (simp add: example_updated_def CountMinSketch_update_def example_sketch_eq example_store_eq
        example_indices_5 update_loop.simps array_index_def array_set_def array_get_def Let_def)

lemma example_updated_wf_own: "wf (fst (snd example_updated)) (snd (snd example_updated))"
  by (simp add: example_updated_eq wf_def)

lemma example_big_eq:
  "example_big =
     (None,
      \<lparr>columns = 3, rows = 2, matrix = [0, 1], N = Num 9007199254740992,
        seed = getDefaultSeed\<rparr>,
      [[Num 0, Num 0, Num 9007199254740992], [Num 9007199254740992, Num 0, Num 0]])"
  by (simp add: example_big_def CountMinSketch_update_def example_sketch_eq example_store_eq
        example_indices_5 update_loop.simps array_index_def array_set_def array_get_def Let_def
        double_eval)

subsection \<open>update\<close>

text \<open>
  C2, as the code has it. \<open>update(x, c)\<close> on a well-formed sketch, when the index
  generator returns the \<open>d\<close> distinct indexes \<open>h_i(x)\<close> below \<open>w\<close>: the call returns
  normally, \<open>N\<close> becomes the double sum of \<open>N\<close> and \<open>c\<close> (of \<open>N\<close> and 1 when the weight is
  omitted), in every row \<open>i\<close> the cell \<open>M[i][h_i(x)]\<close> becomes the double sum of the cell
  and \<open>c\<close>, and every other cell of the matrix keeps its value; the sizes, the seed and
  the rows of the store that are not rows of the sketch are unchanged. The double sum is
  the exact sum, so that \<open>N\<close> and the cell grow by exactly \<open>c\<close>, when the operands are
  integers whose sum is at most \<open>2^53\<close> in magnitude.
\<close>

theorem update_adds_weight:
  fixes cnt :: "number option"
  assumes wf: "wf this h"
    and gen: "getDistinctIndices x (columns this) (rows this) (seed this) = Inr indexes"
    and ok: "distinct_indices (Inr indexes) (columns this) (rows this)"
  defines "c \<equiv> (case cnt of None \<Rightarrow> Num 1 | Some n \<Rightarrow> n)"
  shows "\<exists>this' h'.
           CountMinSketch_update getDistinctIndices x cnt this h = (None, this', h') \<and>
           N this' = plus_number (N this) c \<and>
           columns this' = columns this \<and> rows this' = rows this \<and>
           seed this' = seed this \<and> matrix this' = matrix this \<and>
           (\<forall>i<rows this. indexes ! i < columns this \<and>
              (\<forall>j<columns this.
                 matrix_of this' h' ! i ! j =
                   (if j = indexes ! i then plus_number (matrix_of this h ! i ! j) c
                    else matrix_of this h ! i ! j))) \<and>
           (\<forall>a<length h. a \<notin> set (matrix this) \<longrightarrow> h' ! a = h ! a) \<and>
           (\<forall>n w. N this = Num (of_int n) \<and> c = Num (of_int w) \<and> \<bar>n + w\<bar> \<le> 2 ^ 53 \<longrightarrow>
              N this' = Num (of_int (n + w))) \<and>
           (\<forall>i<rows this. \<forall>v w.
              matrix_of this h ! i ! (indexes ! i) = Num (of_int v) \<and> c = Num (of_int w) \<and>
              \<bar>v + w\<bar> \<le> 2 ^ 53 \<longrightarrow>
              matrix_of this' h' ! i ! (indexes ! i) = Num (of_int (v + w)))"
proof -
  let ?this1 = "this\<lparr>N := plus_number (N this) c\<rparr>"
  have ws: "well_shaped this h" by (rule wf_well_shaped [OF wf])
  from update_effect [where getDistinctIndices = getDistinctIndices and x = x and cnt = cnt,
      OF ws gen ok]
  obtain h' where h': "CountMinSketch_update getDistinctIndices x cnt this h = (None, ?this1, h')"
    "\<forall>k<rows this. h' ! (matrix this ! k) =
                 (h ! (matrix this ! k))[indexes ! k :=
                    plus_number (h ! (matrix this ! k) ! (indexes ! k)) c]"
    "\<forall>a. a \<notin> set (matrix this) \<longrightarrow> h' ! a = h ! a"
    by (auto simp: c_def)
  have len: "length (matrix this) = rows this" using wf by (simp add: wf_def)
  have cells: "indexes ! i < columns this \<and>
              (\<forall>j<columns this.
                 matrix_of ?this1 h' ! i ! j =
                   (if j = indexes ! i then plus_number (matrix_of this h ! i ! j) c
                    else matrix_of this h ! i ! j))" if i: "i < rows this" for i
  proof -
    have "matrix this ! i \<in> set (matrix this)" using i len by simp
    then have rl: "length (h ! (matrix this ! i)) = columns this"
      using wf by (auto simp: wf_def list_all_iff)
    have idx: "indexes ! i < columns this"
      using ok i by (auto simp: list_all_iff)
    show ?thesis
      using h'(2) i len rl idx by (auto simp: matrix_of_def nth_list_update)
  qed
  have exactN: "N ?this1 = Num (of_int (n + w))"
    if "N this = Num (of_int n) \<and> c = Num (of_int w) \<and> \<bar>n + w\<bar> \<le> 2 ^ 53" for n w
    using that plus_number_int [of n w] by simp
  have exact: "matrix_of ?this1 h' ! i ! (indexes ! i) = Num (of_int (v + w))"
    if "i < rows this"
      "matrix_of this h ! i ! (indexes ! i) = Num (of_int v) \<and> c = Num (of_int w) \<and>
       \<bar>v + w\<bar> \<le> 2 ^ 53" for i v w
    using cells [OF that(1)] that(2) plus_number_int [of v w] by simp
  show ?thesis
    using h'(1,3) cells exactN exact by (intro exI [of _ ?this1] exI [of _ h']) simp
qed

theorem update_adds_weight_witness:
  "wf (fst (snd example_updated)) (snd (snd example_updated)) \<and>
   example_indices 5 (columns (fst (snd example_updated))) (rows (fst (snd example_updated)))
     (seed (fst (snd example_updated))) = Inr [2, 0] \<and>
   distinct_indices (Inr [2, 0]) (columns (fst (snd example_updated)))
     (rows (fst (snd example_updated))) \<and>
   N (fst (snd example_updated)) = Num 1 \<and>
   matrix_of (fst (snd example_updated)) (snd (snd example_updated)) =
     [[Num 0, Num 0, Num 1], [Num 1, Num 0, Num 0]] \<and>
   (\<exists>this' h'.
      CountMinSketch_update example_indices 5 (Some (Num 4))
        (fst (snd example_updated)) (snd (snd example_updated)) = (None, this', h') \<and>
      N this' = Num 5 \<and>
      matrix_of this' h' ! 0 ! 2 = Num 5 \<and> matrix_of this' h' ! 0 ! 1 = Num 0 \<and>
      matrix_of this' h' ! 1 ! 0 = Num 5 \<and> matrix_of this' h' ! 1 ! 2 = Num 0)"
proof -
  let ?s = "fst (snd example_updated)" and ?h = "snd (snd example_updated)"
  have gen: "example_indices 5 (columns ?s) (rows ?s) (seed ?s) = Inr [2, 0]"
    by (simp add: example_updated_eq example_indices_5)
  have ok: "distinct_indices (Inr [2, 0]) (columns ?s) (rows ?s)"
    by (simp add: example_updated_eq)
  have n1: "N ?s = Num 1" by (simp add: example_updated_eq)
  have m0: "matrix_of ?s ?h = [[Num 0, Num 0, Num 1], [Num 1, Num 0, Num 0]]"
    by (simp add: matrix_of_def example_updated_eq)
  from update_adds_weight [where getDistinctIndices = example_indices and x = 5
      and cnt = "Some (Num 4)", OF example_updated_wf_own gen ok]
  obtain this' h' where r:
    "CountMinSketch_update example_indices 5 (Some (Num 4)) ?s ?h = (None, this', h')"
    "\<forall>i<rows ?s. [2, 0] ! i < columns ?s \<and>
       (\<forall>j<columns ?s.
          matrix_of this' h' ! i ! j =
            (if j = [2, 0] ! i then plus_number (matrix_of ?s ?h ! i ! j) (Num 4)
             else matrix_of ?s ?h ! i ! j))"
    "\<forall>n w. N ?s = Num (of_int n) \<and> Num 4 = Num (of_int w) \<and> \<bar>n + w\<bar> \<le> 2 ^ 53 \<longrightarrow>
       N this' = Num (of_int (n + w))"
    "\<forall>i<rows ?s. \<forall>v w.
       matrix_of ?s ?h ! i ! ([2, 0] ! i) = Num (of_int v) \<and> Num 4 = Num (of_int w) \<and>
       \<bar>v + w\<bar> \<le> 2 ^ 53 \<longrightarrow>
       matrix_of this' h' ! i ! ([2, 0] ! i) = Num (of_int (v + w))"
    by auto
  have i0: "(0::nat) < rows ?s" and i1: "(1::nat) < rows ?s"
    and j0: "(0::nat) < columns ?s" and j1: "(1::nat) < columns ?s"
    and j2: "(2::nat) < columns ?s"
    by (simp_all add: example_updated_eq)
  have "N this' = Num 5"
    using r(3) [rule_format, of 1 4] n1 by simp
  moreover have "matrix_of this' h' ! 0 ! 2 = Num 5"
    using r(4) [rule_format, OF i0, of 1 4] by (simp add: m0)
  moreover have "matrix_of this' h' ! 0 ! 1 = Num 0"
    using r(2) [rule_format, OF i0, THEN conjunct2, rule_format, OF j1] by (simp add: m0)
  moreover have "matrix_of this' h' ! 1 ! 0 = Num 5"
    using r(4) [rule_format, OF i1, of 1 4] by (simp add: m0)
  moreover have "matrix_of this' h' ! 1 ! 2 = Num 0"
    using r(2) [rule_format, OF i1, THEN conjunct2, rule_format, OF j2] by (simp add: m0)
  ultimately show ?thesis
    using r(1) gen ok n1 m0 example_updated_wf_own by blast
qed

text \<open>
  C2 as stated fails beyond \<open>2^53\<close>: after \<open>update(5, 2^53)\<close> on the new sketch, \<open>N\<close> and
  the two cells of the element are \<open>2^53\<close>, and \<open>update(5, 1)\<close> leaves the sketch and the
  store exactly as they were: \<open>2^53 + 1\<close> is not a double and rounds back to \<open>2^53\<close>.
\<close>

theorem update_beyond_2_53_counterexample:
  "N (fst (snd example_big)) = Num (2 ^ 53) \<and>
   matrix_of (fst (snd example_big)) (snd (snd example_big)) =
     [[Num 0, Num 0, Num (2 ^ 53)], [Num (2 ^ 53), Num 0, Num 0]] \<and>
   CountMinSketch_update example_indices 5 (Some (Num 1))
     (fst (snd example_big)) (snd (snd example_big)) =
     (None, fst (snd example_big), snd (snd example_big))"
  by (simp add: example_big_eq matrix_of_def CountMinSketch_update_def example_indices_5
        update_loop.simps array_index_def array_set_def array_get_def Let_def double_eval)



subsection \<open>count\<close>

lemma fold_min_int_lower:
  "\<forall>u\<in>set vs. \<exists>v::int. u = Num (of_int v) \<and> t \<le> v \<Longrightarrow>
   \<exists>v::int. mn = Num (of_int v) \<and> t \<le> v \<Longrightarrow>
   \<exists>v::int. fold Math_min vs mn = Num (of_int v) \<and> t \<le> v"
proof (induction vs arbitrary: mn)
  case Nil
  then show ?case by simp
next
  case (Cons u vs)
  from Cons.prems obtain a b :: int where ab: "u = Num (of_int a)" "t \<le> a"
    "mn = Num (of_int b)" "t \<le> b"
    by auto
  have "Math_min u mn = Num (of_int (min a b))"
    by (simp add: ab min_def)
  moreover have "t \<le> min a b" using ab by simp
  ultimately show ?case
    using Cons.IH [of "Math_min u mn"] Cons.prems(1) by auto
qed

lemma fold_min_int_lower_Infinity:
  "\<forall>u\<in>set vs. \<exists>v::int. u = Num (of_int v) \<and> t \<le> v \<Longrightarrow> vs \<noteq> [] \<Longrightarrow>
   \<exists>v::int. fold Math_min vs Infinity = Num (of_int v) \<and> t \<le> v"
proof (cases vs)
  case Nil
  assume "vs \<noteq> []"
  with Nil show ?thesis by simp
next
  case (Cons u ws)
  assume a: "\<forall>u\<in>set vs. \<exists>v::int. u = Num (of_int v) \<and> t \<le> v"
  then obtain v :: int where v: "u = Num (of_int v)" "t \<le> v"
    using Cons by auto
  have "fold Math_min vs Infinity = fold Math_min ws u"
    by (simp add: Cons v)
  moreover have "\<exists>v::int. fold Math_min ws u = Num (of_int v) \<and> t \<le> v"
    using a v Cons by (intro fold_min_int_lower) auto
  ultimately show ?thesis by simp
qed

lemma updates_lower_bound:
  assumes "well_shaped this h"
    and "getDistinctIndices x (columns this) (rows this) (seed this) = Inr indexes"
    and "distinct_indices (Inr indexes) (columns this) (rows this)"
    and "\<forall>(e, c)\<in>set ops. 0 \<le> c \<and>
           distinct_indices (getDistinctIndices e (columns this) (rows this) (seed this))
             (columns this) (rows this)"
    and "\<forall>k<rows this. \<forall>j<columns this.
           \<exists>v. h ! (matrix this ! k) ! j = Num (of_int v) \<and> 0 \<le> v \<and> v \<le> S"
    and "\<forall>k<rows this. \<exists>v. h ! (matrix this ! k) ! (indexes ! k) = Num (of_int v) \<and> t \<le> v"
    and "S + sum_list (map snd ops) \<le> 2 ^ 53"
  shows "\<exists>this' h'. updates getDistinctIndices (integer_weights ops) this h = (None, this', h') \<and>
           well_shaped this' h' \<and> columns this' = columns this \<and> rows this' = rows this \<and>
           seed this' = seed this \<and> matrix this' = matrix this \<and>
           (\<forall>k<rows this. \<exists>v. h' ! (matrix this ! k) ! (indexes ! k) = Num (of_int v) \<and>
                               t + true_count ops x \<le> v)"
  using assms
proof (induction ops arbitrary: this h t S)
  case Nil
  then show ?case by (simp add: integer_weights_def)
next
  case (Cons op ops)
  obtain e c where op: "op = (e, c)" by (cases op)
  from Cons.prems(4) op have c: "0 \<le> c"
    and ok_e: "distinct_indices (getDistinctIndices e (columns this) (rows this) (seed this))
                 (columns this) (rows this)"
    by auto
  then obtain indexes_e where gen_e:
      "getDistinctIndices e (columns this) (rows this) (seed this) = Inr indexes_e"
    by (cases "getDistinctIndices e (columns this) (rows this) (seed this)") auto
  have rest_nonneg: "0 \<le> sum_list (map snd ops)"
    using Cons.prems(4) by (intro sum_list_nonneg) auto
  have Sc: "S + c \<le> 2 ^ 53"
    using Cons.prems(7) rest_nonneg by (simp add: op)
  let ?c = "Num (of_int c)"
  let ?this1 = "this\<lparr>N := plus_number (N this) ?c\<rparr>"
  from update_effect [where getDistinctIndices = getDistinctIndices and x = e
      and cnt = "Some ?c", OF Cons.prems(1) gen_e] ok_e gen_e
  obtain h1 where h1:
    "CountMinSketch_update getDistinctIndices e (Some ?c) this h = (None, ?this1, h1)"
    "well_shaped ?this1 h1"
    by auto
  have cell: "\<exists>v'. h1 ! (matrix this ! k) ! j = Num (of_int v') \<and> 0 \<le> v' \<and> v' \<le> S + c \<and>
       v' = (if j = indexes_e ! k then v + c else v)"
    if k: "k < rows this" and j: "j < columns this"
      and v: "h ! (matrix this ! k) ! j = Num (of_int v)" "0 \<le> v" "v \<le> S" for k j v
  proof -
    have "\<bar>v + c\<bar> \<le> 2 ^ 53" using v c Sc by simp
    then have "plus_number (Num (of_int v)) ?c = Num (of_int (v + c))"
      by (rule plus_number_int)
    with update_cell [where getDistinctIndices = getDistinctIndices and e = e,
        OF Cons.prems(1) gen_e _ h1(1) k j] ok_e gen_e v c
    show ?thesis by auto
  qed
  have cells: "\<forall>k<rows ?this1. \<forall>j<columns ?this1.
      \<exists>v. h1 ! (matrix ?this1 ! k) ! j = Num (of_int v) \<and> 0 \<le> v \<and> v \<le> S + c"
  proof (intro allI impI)
    fix k j assume kj: "k < rows ?this1" "j < columns ?this1"
    with Cons.prems(5) obtain v where
      "h ! (matrix this ! k) ! j = Num (of_int v)" "0 \<le> v" "v \<le> S"
      by auto
    from cell [OF _ _ this] kj
    show "\<exists>v. h1 ! (matrix ?this1 ! k) ! j = Num (of_int v) \<and> 0 \<le> v \<and> v \<le> S + c"
      by auto
  qed
  have same: "indexes_e = indexes" if "e = x"
    using that gen_e Cons.prems(2) by simp
  have xcells: "\<forall>k<rows ?this1. \<exists>v. h1 ! (matrix ?this1 ! k) ! (indexes ! k) = Num (of_int v) \<and>
                  t + (if e = x then c else 0) \<le> v"
  proof (intro allI impI)
    fix k assume k: "k < rows ?this1"
    then have k': "k < rows this" by simp
    have j: "indexes ! k < columns this" using Cons.prems(3) k' by (auto simp: list_all_iff)
    from Cons.prems(6) k' obtain v where v: "h ! (matrix this ! k) ! (indexes ! k) = Num (of_int v)"
      "t \<le> v"
      by blast
    from Cons.prems(5) k' j obtain u where
      u: "h ! (matrix this ! k) ! (indexes ! k) = Num (of_int u)" "0 \<le> u" "u \<le> S"
      by blast
    from u(1) v(1) have uv: "u = v" by simp
    from cell [OF k' j u] uv v(2) c same
    show "\<exists>v. h1 ! (matrix ?this1 ! k) ! (indexes ! k) = Num (of_int v) \<and>
                  t + (if e = x then c else 0) \<le> v"
      by auto
  qed
  have rest: "\<forall>(e, c)\<in>set ops. 0 \<le> c \<and>
           distinct_indices (getDistinctIndices e (columns ?this1) (rows ?this1) (seed ?this1))
             (columns ?this1) (rows ?this1)"
    using Cons.prems(4) by auto
  have bound: "S + c + sum_list (map snd ops) \<le> 2 ^ 53"
    using Cons.prems(7) by (simp add: op)
  from Cons.IH [OF h1(2) _ _ rest cells xcells bound] Cons.prems(2,3)
  obtain this' h' where r: "updates getDistinctIndices (integer_weights ops) ?this1 h1 = (None, this', h')"
    "well_shaped this' h'" "columns this' = columns this" "rows this' = rows this"
    "seed this' = seed this" "matrix this' = matrix this"
    "\<forall>k<rows this. \<exists>v. h' ! (matrix this ! k) ! (indexes ! k) = Num (of_int v) \<and>
                               t + (if e = x then c else 0) + true_count ops x \<le> v"
    by auto
  have "updates getDistinctIndices (integer_weights (op # ops)) this h = (None, this', h')"
    using h1(1) r(1) by (simp add: op integer_weights_def)
  moreover have "\<forall>k<rows this. \<exists>v. h' ! (matrix this ! k) ! (indexes ! k) = Num (of_int v) \<and>
                               t + true_count (op # ops) x \<le> v"
    using r(7) by (simp add: op add.assoc)
  ultimately show ?case
    using r by (simp add: op)
qed

text \<open>
  C1, as the code has it. The point estimate does not underestimate while the sums are
  exact: on a sketch with at least one row that starts with all cells 0, after any
  sequence of \<open>update(element, c)\<close> whose weights \<open>c\<close> are nonnegative integers that sum to
  at most \<open>2^53\<close> (each call getting its distinct indexes from the generator), \<open>count(x)\<close>
  returns an integer that is greater than or equal to the sum of the weights of the
  updates whose element is \<open>x\<close>.
\<close>

theorem count_never_underestimates:
  assumes wf: "wf this h"
    and empty: "\<forall>row\<in>set (matrix_of this h). \<forall>v\<in>set row. v = Num 0"
    and rows: "0 < rows this"
    and ops: "\<forall>(e, c)\<in>set ops. 0 \<le> c \<and>
           distinct_indices (getDistinctIndices e (columns this) (rows this) (seed this))
             (columns this) (rows this)"
    and x: "distinct_indices (getDistinctIndices x (columns this) (rows this) (seed this))
             (columns this) (rows this)"
    and total: "sum_list (map snd ops) \<le> 2 ^ 53"
  shows "\<exists>this' h' v. updates getDistinctIndices (integer_weights ops) this h = (None, this', h') \<and>
           CountMinSketch_count getDistinctIndices x this' h' = Inr (Num (of_int v)) \<and>
           true_count ops x \<le> v"
proof -
  from x obtain indexes where gen:
      "getDistinctIndices x (columns this) (rows this) (seed this) = Inr indexes"
    and ok: "distinct_indices (Inr indexes) (columns this) (rows this)"
    by (cases "getDistinctIndices x (columns this) (rows this) (seed this)") auto
  have ws: "well_shaped this h" by (rule wf_well_shaped [OF wf])
  have len: "length (matrix this) = rows this" using wf by (simp add: wf_def)
  have zero: "h ! (matrix this ! k) ! j = Num 0" if k: "k < rows this" and j: "j < columns this"
    for k j
  proof -
    have a: "matrix this ! k \<in> set (matrix this)" using k len by simp
    then have "length (h ! (matrix this ! k)) = columns this"
      using wf by (auto simp: wf_def list_all_iff)
    then have "h ! (matrix this ! k) ! j \<in> set (h ! (matrix this ! k))"
      using j by simp
    moreover have "h ! (matrix this ! k) \<in> set (matrix_of this h)"
      using a by (simp add: matrix_of_def)
    ultimately show ?thesis using empty by blast
  qed
  have cells: "\<forall>k<rows this. \<forall>j<columns this.
      \<exists>v. h ! (matrix this ! k) ! j = Num (of_int v) \<and> 0 \<le> v \<and> v \<le> (0::int)"
    using zero by (intro allI impI exI [of _ 0]) simp
  have xcells: "\<forall>k<rows this. \<exists>v. h ! (matrix this ! k) ! (indexes ! k) = Num (of_int v) \<and>
      (0::int) \<le> v"
  proof (intro allI impI exI [of _ 0])
    fix k assume k: "k < rows this"
    have "indexes ! k < columns this" using ok k by (auto simp: list_all_iff)
    from zero [OF k this]
    show "h ! (matrix this ! k) ! (indexes ! k) = Num (of_int 0) \<and> (0::int) \<le> 0" by simp
  qed
  have bound: "0 + sum_list (map snd ops) \<le> 2 ^ 53" using total by simp
  from updates_lower_bound [where getDistinctIndices = getDistinctIndices and x = x,
      OF ws gen ok ops cells xcells bound]
  obtain this' h' where r: "updates getDistinctIndices (integer_weights ops) this h = (None, this', h')"
    "well_shaped this' h'" "columns this' = columns this" "rows this' = rows this"
    "seed this' = seed this" "matrix this' = matrix this"
    "\<forall>k<rows this. \<exists>v. h' ! (matrix this ! k) ! (indexes ! k) = Num (of_int v) \<and>
                               true_count ops x \<le> v"
    by auto
  have cnt: "CountMinSketch_count getDistinctIndices x this' h' =
      Inr (fold Math_min (map (\<lambda>k. h' ! (matrix this ! k) ! (indexes ! k)) [0..<rows this])
             Infinity)"
    using count_effect [where getDistinctIndices = getDistinctIndices and x = x,
        OF r(2), of indexes] gen ok r(3-6) by simp
  have "\<exists>v. fold Math_min (map (\<lambda>k. h' ! (matrix this ! k) ! (indexes ! k)) [0..<rows this])
             Infinity = Num (of_int v) \<and> true_count ops x \<le> v"
    using r(7) rows by (intro fold_min_int_lower_Infinity) auto
  with cnt r(1) show ?thesis by auto
qed

theorem count_never_underestimates_witness:
  "wf example_sketch example_store \<and> 0 < rows example_sketch \<and>
   sum_list (map snd [(5 :: nat, 2 :: int), (7, 1), (5, 3)]) \<le> 2 ^ 53 \<and>
   (\<exists>this' h' v.
      updates example_indices (integer_weights [(5, 2), (7, 1), (5, 3)])
        example_sketch example_store = (None, this', h') \<and>
      CountMinSketch_count example_indices 5 this' h' = Inr (Num (of_int v)) \<and> 5 \<le> v)"
proof -
  have empty: "\<forall>row\<in>set (matrix_of example_sketch example_store). \<forall>v\<in>set row. v = Num 0"
    by (simp add: example_sketch_eq example_store_eq matrix_of_def)
  have rows: "0 < rows example_sketch"
    by (simp add: example_sketch_eq)
  have ops: "\<forall>(e, c)\<in>set [(5, 2 :: int), (7, 1), (5, 3)]. 0 \<le> c \<and>
      distinct_indices (example_indices e (columns example_sketch) (rows example_sketch)
        (seed example_sketch)) (columns example_sketch) (rows example_sketch)"
    by (simp add: example_sketch_eq example_indices_5 example_indices_7)
  have x: "distinct_indices (example_indices 5 (columns example_sketch) (rows example_sketch)
        (seed example_sketch)) (columns example_sketch) (rows example_sketch)"
    by (simp add: example_sketch_eq example_indices_5)
  have total: "sum_list (map snd [(5 :: nat, 2 :: int), (7, 1), (5, 3)]) \<le> 2 ^ 53"
    by simp
  from count_never_underestimates [where getDistinctIndices = example_indices and x = 5
      and ops = "[(5, 2), (7, 1), (5, 3)]", OF example_wf empty rows ops x total]
    example_wf rows total
  show ?thesis by simp
qed

text \<open>
  C1 as stated fails beyond \<open>2^53\<close>: after \<open>update(5, 2^53)\<close> and \<open>update(5, 1)\<close> on the new
  sketch, both with nonnegative weights, \<open>count(5)\<close> is \<open>2^53\<close>, below the sum \<open>2^53 + 1\<close>
  of the weights.
\<close>

theorem count_beyond_2_53_counterexample:
  "true_count [(5 :: nat, 2 ^ 53), (5, 1)] 5 = 2 ^ 53 + 1 \<and>
   updates example_indices (integer_weights [(5, 2 ^ 53), (5, 1)])
     example_sketch example_store = (None, fst (snd example_big), snd (snd example_big)) \<and>
   CountMinSketch_count example_indices 5 (fst (snd example_big)) (snd (snd example_big)) =
     Inr (Num (2 ^ 53))"
  by (simp add: integer_weights_def example_big_eq example_sketch_eq example_store_eq
        CountMinSketch_update_def CountMinSketch_count_def example_indices_5
        update_loop.simps count_loop.simps array_index_def array_set_def array_get_def
        Let_def double_eval)

subsection \<open>merge\<close>

lemma merge_columns_effect:
  assumes "i < length (matrix this)" and "i < length (matrix sketch)"
    and "matrix this ! i < length h"
    and "length (h ! (matrix this ! i)) = columns this"
    and "length (h ! (matrix sketch ! i)) = columns this"
  shows "\<exists>h'. merge_columns this sketch i j h = (None, h') \<and> length h' = length h \<and>
           (\<forall>a. a \<noteq> matrix this ! i \<longrightarrow> h' ! a = h ! a) \<and>
           length (h' ! (matrix this ! i)) = columns this \<and>
           (\<forall>k<columns this. h' ! (matrix this ! i) ! k =
              (if j \<le> k
               then plus_number (h ! (matrix this ! i) ! k) (h ! (matrix sketch ! i) ! k)
               else h ! (matrix this ! i) ! k))"
  using assms
proof (induction this sketch i j h rule: merge_columns.induct)
  case (1 this sketch i j h)
  let ?a = "matrix this ! i" and ?b = "matrix sketch ! i"
  show ?case
  proof (cases "j < columns this")
    case False
    then show ?thesis using "1.prems" by (subst merge_columns.simps) simp
  next
    case True
    define h1 where "h1 = h[?a := (h ! ?a)[j := plus_number (h ! ?a ! j) (h ! ?b ! j)]]"
    have unfold: "merge_columns this sketch i j h = merge_columns this sketch i (Suc j) h1"
      using True "1.prems"
      by (subst merge_columns.simps)
         (simp add: array_index_def array_set_def array_get_def h1_def)
    have h1a: "h1 ! ?a = (h ! ?a)[j := plus_number (h ! ?a ! j) (h ! ?b ! j)]"
      using "1.prems" by (simp add: h1_def)
    have h1b: "h1 ! ?b ! k = h ! ?b ! k" if "k \<noteq> j" for k
      using that "1.prems" by (cases "?b = ?a") (simp_all add: h1_def)
    have h1bl: "length (h1 ! ?b) = columns this"
      using "1.prems" by (cases "?b = ?a") (simp_all add: h1_def)
    have pre: "?a < length h1" "length (h1 ! ?a) = columns this"
      using "1.prems" by (simp_all add: h1_def)
    have IH: "\<exists>h'. merge_columns this sketch i (Suc j) h1 = (None, h') \<and>
       length h' = length h1 \<and> (\<forall>a. a \<noteq> ?a \<longrightarrow> h' ! a = h1 ! a) \<and>
       length (h' ! ?a) = columns this \<and>
       (\<forall>k<columns this. h' ! ?a ! k =
              (if Suc j \<le> k then plus_number (h1 ! ?a ! k) (h1 ! ?b ! k) else h1 ! ?a ! k))"
    proof -
      have eq: "h[?a := array_set (h ! ?a) (Some j)
                  (plus_number (array_get (h ! ?a) (Some j)) (array_get (h ! ?b) (Some j)))] = h1"
        using True "1.prems" by (simp add: array_set_def array_get_def h1_def)
      have ia: "array_index (matrix this) i = Some ?a" and ib: "array_index (matrix sketch) i = Some ?b"
        using "1.prems" by (simp_all add: array_index_def)
      show ?thesis
        using "1.IH" [OF True ia ib] "1.prems"(1,2) pre h1bl unfolding eq by blast
    qed
    then obtain h' where h': "merge_columns this sketch i (Suc j) h1 = (None, h')"
      "length h' = length h1" "\<forall>a. a \<noteq> ?a \<longrightarrow> h' ! a = h1 ! a"
      "length (h' ! ?a) = columns this"
      "\<forall>k<columns this. h' ! ?a ! k =
              (if Suc j \<le> k then plus_number (h1 ! ?a ! k) (h1 ! ?b ! k) else h1 ! ?a ! k)"
      by blast
    have "\<forall>k<columns this. h' ! ?a ! k =
              (if j \<le> k then plus_number (h ! ?a ! k) (h ! ?b ! k) else h ! ?a ! k)"
    proof (intro allI impI)
      fix k assume k: "k < columns this"
      show "h' ! ?a ! k = (if j \<le> k then plus_number (h ! ?a ! k) (h ! ?b ! k) else h ! ?a ! k)"
      proof (cases "k = j")
        case True
        then show ?thesis using h'(5) k h1a "1.prems"(4) by simp
      next
        case False
        then show ?thesis using h'(5) k h1a h1b [OF False] "1.prems"(4) by auto
      qed
    qed
    moreover have "\<forall>a. a \<noteq> ?a \<longrightarrow> h' ! a = h ! a"
      using h'(3) by (simp add: h1_def)
    ultimately show ?thesis
      using unfold h' by (simp add: h1_def)
  qed
qed

lemma rows_alignedD:
  "rows_aligned this sketch \<Longrightarrow> i < length (matrix this) \<Longrightarrow> k < length (matrix sketch) \<Longrightarrow>
   matrix this ! i = matrix sketch ! k \<Longrightarrow> i = k"
  by (auto simp: rows_aligned_def list_all_iff)

lemma merge_rows_effect:
  assumes "length (matrix this) = rows this" and "length (matrix sketch) = rows this"
    and "distinct (matrix this)"
    and "\<forall>a\<in>set (matrix this) \<union> set (matrix sketch).
           a < length h \<and> length (h ! a) = columns this"
  shows "\<exists>h'. merge_rows this sketch i h = (None, h') \<and> length h' = length h \<and>
           (\<forall>a. a \<notin> set (matrix this) \<longrightarrow> h' ! a = h ! a) \<and>
           (\<forall>a\<in>set (matrix this). length (h' ! a) = columns this) \<and>
           (rows_aligned this sketch \<longrightarrow>
              (\<forall>k<rows this. h' ! (matrix this ! k) =
                 (if i \<le> k
                  then map2 plus_number (h ! (matrix this ! k)) (h ! (matrix sketch ! k))
                  else h ! (matrix this ! k))))"
  using assms
proof (induction this sketch i h rule: merge_rows.induct)
  case (1 this sketch i h)
  let ?a = "matrix this ! i" and ?b = "matrix sketch ! i"
  show ?case
  proof (cases "i < rows this")
    case False
    then show ?thesis using "1.prems" by (subst merge_rows.simps) simp
  next
    case True
    have a_in: "?a \<in> set (matrix this)" and b_in: "?b \<in> set (matrix sketch)"
      using True "1.prems" by simp_all
    from merge_columns_effect [of i this sketch h 0] True "1.prems" a_in b_in
    obtain h1 where h1: "merge_columns this sketch i 0 h = (None, h1)" "length h1 = length h"
      "\<forall>a. a \<noteq> ?a \<longrightarrow> h1 ! a = h ! a" "length (h1 ! ?a) = columns this"
      "\<forall>k<columns this. h1 ! ?a ! k = plus_number (h ! ?a ! k) (h ! ?b ! k)"
      by auto
    have row: "h1 ! ?a = map2 plus_number (h ! ?a) (h ! ?b)"
      using h1(4,5) "1.prems"(4) a_in b_in by (auto intro!: nth_equalityI)
    have unfold: "merge_rows this sketch i h = merge_rows this sketch (Suc i) h1"
      using True h1(1) by (subst merge_rows.simps) simp
    have pre: "\<forall>a\<in>set (matrix this) \<union> set (matrix sketch).
           a < length h1 \<and> length (h1 ! a) = columns this"
      using "1.prems"(4) h1(2,3,4) by (metis)
    from "1.IH" [OF True _ _ "1.prems"(1,2,3) pre] h1(1)
    obtain h' where h': "merge_rows this sketch (Suc i) h1 = (None, h')"
      "length h' = length h1" "\<forall>a. a \<notin> set (matrix this) \<longrightarrow> h' ! a = h1 ! a"
      "\<forall>a\<in>set (matrix this). length (h' ! a) = columns this"
      "rows_aligned this sketch \<longrightarrow>
              (\<forall>k<rows this. h' ! (matrix this ! k) =
                 (if Suc i \<le> k
                  then map2 plus_number (h1 ! (matrix this ! k)) (h1 ! (matrix sketch ! k))
                  else h1 ! (matrix this ! k)))"
      by auto
    have frame: "\<forall>a. a \<notin> set (matrix this) \<longrightarrow> h' ! a = h ! a"
      using h'(3) h1(3) a_in by metis
    have sums: "\<forall>k<rows this. h' ! (matrix this ! k) =
                 (if i \<le> k
                  then map2 plus_number (h ! (matrix this ! k)) (h ! (matrix sketch ! k))
                  else h ! (matrix this ! k))" if al: "rows_aligned this sketch"
    proof (intro allI impI)
      fix k assume k: "k < rows this"
      show "h' ! (matrix this ! k) =
                 (if i \<le> k
                  then map2 plus_number (h ! (matrix this ! k)) (h ! (matrix sketch ! k))
                  else h ! (matrix this ! k))"
      proof (cases "k = i")
        case True
        then show ?thesis using h'(5) al k row by simp
      next
        case False
        have "matrix this ! k \<noteq> ?a"
          using False k True "1.prems"(1,3) by (simp add: nth_eq_iff_index_eq)
        moreover have "matrix sketch ! k \<noteq> ?a"
          using rows_alignedD [OF al, of i k] False k True "1.prems"(1,2) by auto
        ultimately show ?thesis
          using h'(5) al k h1(3) False by auto
      qed
    qed
    show ?thesis
      using unfold h' h1(2) frame sums by simp
  qed
qed

lemma merge_effect:
  assumes wf1: "wf this h" and wf2: "wf sketch h"
    and cols: "columns this = columns sketch" and rws: "rows this = rows sketch"
  shows "\<exists>h'. CountMinSketch_merge this sketch h = (None, this, h') \<and> length h' = length h \<and>
           (\<forall>a. a \<notin> set (matrix this) \<longrightarrow> h' ! a = h ! a) \<and>
           well_shaped this h' \<and>
           (rows_aligned this sketch \<longrightarrow>
              matrix_of this h' =
                map2 (map2 plus_number) (matrix_of this h) (matrix_of sketch h))"
proof -
  have len: "length (matrix this) = rows this" "length (matrix sketch) = rows this"
    "distinct (matrix this)"
    using wf1 wf2 rws by (simp_all add: wf_def)
  have pre: "\<forall>a\<in>set (matrix this) \<union> set (matrix sketch).
           a < length h \<and> length (h ! a) = columns this"
    using wf_rows [OF wf1] wf_rows [OF wf2] cols by auto
  from merge_rows_effect [OF len pre, of 0]
  obtain h' where h': "merge_rows this sketch 0 h = (None, h')" "length h' = length h"
    "\<forall>a. a \<notin> set (matrix this) \<longrightarrow> h' ! a = h ! a"
    "\<forall>a\<in>set (matrix this). length (h' ! a) = columns this"
    "rows_aligned this sketch \<longrightarrow>
       (\<forall>k<rows this. h' ! (matrix this ! k) =
           map2 plus_number (h ! (matrix this ! k)) (h ! (matrix sketch ! k)))"
    by auto
  have res: "CountMinSketch_merge this sketch h = (None, this, h')"
    using h'(1) cols rws by (simp add: CountMinSketch_merge_def)
  have ws: "well_shaped this h'"
    using len h'(2,4) pre by (simp add: well_shaped_def list_all_iff)
  have "matrix_of this h' = map2 (map2 plus_number) (matrix_of this h) (matrix_of sketch h)"
    if al: "rows_aligned this sketch"
  proof -
    have rowk: "h' ! (matrix this ! k) =
           map2 plus_number (h ! (matrix this ! k)) (h ! (matrix sketch ! k))"
      if "k < rows this" for k
      using h'(5) al that by simp
    show ?thesis
      using len rowk by (auto simp: matrix_of_def intro!: nth_equalityI)
  qed
  with res ws h'(2,3) show ?thesis by blast
qed

lemma example_other_eq:
  "example_other =
     (\<lparr>columns = 3, rows = 2, matrix = [2, 3], N = Num 0, seed = 1\<rparr>,
      [[Num 0, Num 0, Num 1], [Num 1, Num 0, Num 0],
       [Num 0, Num 0, Num 0], [Num 0, Num 0, Num 0]])"
  by (simp add: example_other_def example_updated_eq new_eq upt_rec numeral_2_eq_2 numeral_3_eq_3)

lemma example_wide_eq:
  "example_wide =
     (\<lparr>columns = 4, rows = 2, matrix = [4, 5], N = Num 0, seed = getDefaultSeed\<rparr>,
      [[Num 0, Num 0, Num 1], [Num 1, Num 0, Num 0],
       [Num 0, Num 0, Num 0], [Num 0, Num 0, Num 0],
       [Num 0, Num 0, Num 0, Num 0], [Num 0, Num 0, Num 0, Num 0]])"
  by (simp add: example_wide_def example_other_eq new_eq upt_rec eval_nat_numeral)

lemma example_updated_wf: "wf (fst (snd example_updated)) (snd example_wide)"
  by (simp add: example_updated_eq example_wide_eq wf_def)

lemma example_other_wf: "wf (fst example_other) (snd example_wide)"
  by (simp add: example_other_eq example_wide_eq wf_def)





text \<open>
  C10, as the code has it. \<open>merge(other)\<close> on well-formed sketches of the same \<open>w\<close> and
  \<open>d\<close> returns normally and assigns no field of the receiver: its \<open>N\<close> (to which the
  \<open>N\<close> of the argument is not added), seed, \<open>w\<close>, \<open>d\<close> and row references are unchanged.
  In the store only rows of the receiver change; the matrix of the argument is unchanged
  when the argument shares no row array with the receiver.
\<close>

theorem merge_changes_only_receiver_rows:
  assumes wf1: "wf this h" and wf2: "wf sketch h"
    and cols: "columns this = columns sketch" and rws: "rows this = rows sketch"
  shows "\<exists>this' h'. CountMinSketch_merge this sketch h = (None, this', h') \<and>
           N this' = N this \<and> seed this' = seed this \<and> columns this' = columns this \<and>
           rows this' = rows this \<and> matrix this' = matrix this \<and>
           length h' = length h \<and>
           (\<forall>a<length h. a \<notin> set (matrix this) \<longrightarrow> h' ! a = h ! a) \<and>
           (set (matrix this) \<inter> set (matrix sketch) = {} \<longrightarrow>
              matrix_of sketch h' = matrix_of sketch h)"
proof -
  from merge_effect [OF wf1 wf2 cols rws]
  obtain h' where h': "CountMinSketch_merge this sketch h = (None, this, h')"
    "length h' = length h" "\<forall>a. a \<notin> set (matrix this) \<longrightarrow> h' ! a = h ! a"
    by blast
  have "matrix_of sketch h' = matrix_of sketch h"
    if "set (matrix this) \<inter> set (matrix sketch) = {}"
    using that h'(3) by (auto simp: matrix_of_def)
  with h' show ?thesis by auto
qed

theorem merge_changes_only_receiver_rows_witness:
  "wf (fst (snd example_updated)) (snd example_wide) \<and>
   wf (fst example_other) (snd example_wide) \<and>
   set (matrix (fst example_other)) \<inter> set (matrix (fst (snd example_updated))) = {} \<and>
   (\<exists>this' h'.
      CountMinSketch_merge (fst example_other) (fst (snd example_updated)) (snd example_wide) =
        (None, this', h') \<and>
      N this' = Num 0 \<and> N (fst (snd example_updated)) = Num 1 \<and> seed this' = 1 \<and>
      matrix_of (fst (snd example_updated)) h' =
        [[Num 0, Num 0, Num 1], [Num 1, Num 0, Num 0]])"
proof -
  have cols: "columns (fst example_other) = columns (fst (snd example_updated))"
    and rws: "rows (fst example_other) = rows (fst (snd example_updated))"
    by (simp_all add: example_updated_eq example_other_eq)
  have disj: "set (matrix (fst example_other)) \<inter> set (matrix (fst (snd example_updated))) = {}"
    by (simp add: example_updated_eq example_other_eq)
  have m: "matrix_of (fst (snd example_updated)) (snd example_wide) =
      [[Num 0, Num 0, Num 1], [Num 1, Num 0, Num 0]]"
    by (simp add: matrix_of_def example_updated_eq example_wide_eq)
  have n: "N (fst example_other) = Num 0" "N (fst (snd example_updated)) = Num 1"
    "seed (fst example_other) = 1"
    by (simp_all add: example_updated_eq example_other_eq)
  from merge_changes_only_receiver_rows [OF example_other_wf example_updated_wf cols rws] disj
  have "\<exists>this' h'.
      CountMinSketch_merge (fst example_other) (fst (snd example_updated)) (snd example_wide) =
        (None, this', h') \<and>
      N this' = Num 0 \<and> N (fst (snd example_updated)) = Num 1 \<and> seed this' = 1 \<and>
      matrix_of (fst (snd example_updated)) h' =
        [[Num 0, Num 0, Num 1], [Num 1, Num 0, Num 0]]"
    unfolding m n by blast
  then show ?thesis
    using example_updated_wf example_other_wf disj by blast
qed

text \<open>
  C10 as stated fails when the argument is the receiver: \<open>s.merge(s)\<close> doubles every
  cell of \<open>s\<close>, so the argument is modified.
\<close>

theorem merge_with_itself_counterexample:
  "columns (fst (snd example_updated)) = columns (fst (snd example_updated)) \<and>
   rows (fst (snd example_updated)) = rows (fst (snd example_updated)) \<and>
   fst (CountMinSketch_merge (fst (snd example_updated)) (fst (snd example_updated))
          (snd (snd example_updated))) = None \<and>
   matrix_of (fst (snd example_updated)) (snd (snd example_updated)) =
     [[Num 0, Num 0, Num 1], [Num 1, Num 0, Num 0]] \<and>
   matrix_of (fst (snd example_updated))
     (snd (snd (CountMinSketch_merge (fst (snd example_updated)) (fst (snd example_updated))
                  (snd (snd example_updated))))) =
     [[Num 0, Num 0, Num 2], [Num 2, Num 0, Num 0]]"
  by (simp add: example_updated_eq CountMinSketch_merge_def merge_rows.simps matrix_of_def
        merge_columns.simps array_index_def array_set_def array_get_def)

subsection \<open>clone\<close>

lemma wf_append: "wf this h \<Longrightarrow> wf this (h @ h2)"
  by (auto simp: wf_def list_all_iff nth_append)

lemma matrix_of_append:
  "\<forall>a\<in>set (matrix this). a < length h \<Longrightarrow> matrix_of this (h @ h2) = matrix_of this h"
  by (simp add: matrix_of_def nth_append)

lemma disjoint_rows_aligned:
  "set (matrix this) \<inter> set (matrix sketch) = {} \<Longrightarrow> rows_aligned this sketch"
  unfolding rows_aligned_def list_all_iff
  by (metis IntI atLeastLessThan_iff empty_iff nth_mem set_upt)

lemma map2_plus_zero_row:
  "length row = w \<Longrightarrow> list_all finite_double row \<Longrightarrow>
   map2 plus_number (replicate w (Num 0)) row = row"
  by (auto intro!: nth_equalityI simp: plus_number_zero list_all_iff)

lemma map2_plus_zero_matrix:
  "length m = d \<Longrightarrow> \<forall>row\<in>set m. length row = w \<and> list_all finite_double row \<Longrightarrow>
   map2 (map2 plus_number) (replicate d (replicate w (Num 0))) m = m"
  by (auto intro!: nth_equalityI simp: map2_plus_zero_row)

lemma wf_from_matrix:
  "well_shaped this h \<Longrightarrow> \<forall>row\<in>set (matrix_of this h). list_all finite_double row \<Longrightarrow>
   wf this h"
  by (simp add: well_shaped_def wf_def matrix_of_def list_all_iff)

lemma clone_effect:
  assumes wf: "wf this h"
  shows "\<exists>copy h'. CountMinSketch_clone this h = (Inr copy, h') \<and>
           N copy = Num 0 \<and> seed copy = seed this \<and>
           columns copy = columns this \<and> rows copy = rows this \<and>
           matrix_of copy h' = matrix_of this h \<and>
           set (matrix copy) \<inter> set (matrix this) = {} \<and>
           wf copy h' \<and> (\<forall>a<length h. h' ! a = h ! a)"
proof -
  define sketch0 where "sketch0 = \<lparr>columns = columns this, rows = rows this,
      matrix = [length h ..< length h + rows this], N = Num 0, seed = getDefaultSeed\<rparr>"
  define h1 where "h1 = h @ replicate (rows this) (replicate (columns this) (Num 0))"
  have new: "CountMinSketch_new (Some (columns this)) (Some (rows this)) None h = (sketch0, h1)"
    by (simp add: new_eq sketch0_def h1_def)
  have wf0: "wf sketch0 h1" by (rule new_wf [OF new])
  have wf1: "wf this h1" unfolding h1_def by (rule wf_append [OF wf])
  have valid: "\<forall>a\<in>set (matrix this). a < length h"
    using wf by (simp add: wf_def list_all_iff)
  then have disj: "set (matrix sketch0) \<inter> set (matrix this) = {}"
    by (auto simp: sketch0_def)
  have dims: "columns sketch0 = columns this" "rows sketch0 = rows this"
    by (simp_all add: sketch0_def)
  from merge_effect [OF wf0 wf1 dims] disjoint_rows_aligned [OF disj]
  obtain h2 where h2: "CountMinSketch_merge sketch0 this h1 = (None, sketch0, h2)"
    "length h2 = length h1" "\<forall>a. a \<notin> set (matrix sketch0) \<longrightarrow> h2 ! a = h1 ! a"
    "well_shaped sketch0 h2"
    "matrix_of sketch0 h2 = map2 (map2 plus_number) (matrix_of sketch0 h1) (matrix_of this h1)"
    by blast
  have m1: "matrix_of this h1 = matrix_of this h"
    unfolding h1_def by (rule matrix_of_append [OF valid])
  have shape: "length (matrix_of this h) = rows this"
    "\<forall>row\<in>set (matrix_of this h). length row = columns this \<and> list_all finite_double row"
    using wf by (auto simp: matrix_of_def wf_def list_all_iff)
  have eq: "matrix_of sketch0 h2 = matrix_of this h"
    using h2(5) new_matrix_of [OF new] m1 map2_plus_zero_matrix [OF shape] by simp
  have "wf sketch0 h2"
    using h2(4) eq shape(2) by (intro wf_from_matrix) simp_all
  then have "wf (sketch0\<lparr>seed := seed this\<rparr>) h2"
    by (simp add: wf_def)
  moreover have "CountMinSketch_clone this h = (Inr (sketch0\<lparr>seed := seed this\<rparr>), h2)"
    by (simp add: CountMinSketch_clone_def new h2(1))
  moreover have "\<forall>a<length h. h2 ! a = h ! a"
    using h2(3) by (auto simp: sketch0_def h1_def nth_append)
  ultimately show ?thesis
    using disj eq by (auto simp: matrix_of_def sketch0_def)
qed

text \<open>
  C4 at a concrete input: the sketch of 3 columns and 2 rows after \<open>update(5)\<close> has
  \<open>N = 1\<close>; its clone has the same cells in new rows and the same seed, but \<open>N = 0\<close>.
\<close>

theorem clone_resets_N:
  "N (fst (snd example_updated)) = Num 1 \<and>
   CountMinSketch_clone (fst (snd example_updated)) (snd (snd example_updated)) =
     (Inr \<lparr>columns = 3, rows = 2, matrix = [2, 3], N = Num 0, seed = getDefaultSeed\<rparr>,
      [[Num 0, Num 0, Num 1], [Num 1, Num 0, Num 0],
       [Num 0, Num 0, Num 1], [Num 1, Num 0, Num 0]])"
  by (simp add: example_updated_eq CountMinSketch_clone_def new_eq upt_rec
        CountMinSketch_merge_def merge_rows.simps
        merge_columns.simps array_index_def array_set_def array_get_def numeral_2_eq_2 numeral_3_eq_3)

subsection \<open>Export and import\<close>

lemma cloneField_eq:
  "\<forall>a\<in>set as. a < length h \<Longrightarrow>
   cloneField as h = ([length h ..< length h + length as], h @ map (\<lambda>a. h ! a) as)"
proof (induction as arbitrary: h)
  case Nil
  show ?case by simp
next
  case (Cons a as)
  have rest: "cloneField as (h @ [h ! a]) =
      ([Suc (length h) ..< Suc (length h) + length as],
       (h @ [h ! a]) @ map (\<lambda>b. (h @ [h ! a]) ! b) as)"
    using Cons.IH [of "h @ [h ! a]"] Cons.prems by (simp add: less_Suc_eq)
  have same: "map (\<lambda>b. (h @ [h ! a]) ! b) as = map (\<lambda>b. h ! b) as"
    using Cons.prems by (simp add: nth_append)
  have "[length h ..< length h + length (a # as)] =
      length h # [Suc (length h) ..< Suc (length h) + length as]"
    by (simp add: upt_conv_Cons del: upt_Suc)
  then show ?case
    by (simp add: alloc_def rest same del: upt_Suc)
qed

lemma count_loop_cong:
  assumes "rows this' = rows this" and "length (matrix this') = length (matrix this)"
    and "\<forall>k<length (matrix this). h' ! (matrix this' ! k) = h ! (matrix this ! k)"
  shows "count_loop indexes this' h' i mn = count_loop indexes this h i mn"
  using assms
proof (induction indexes this h i mn rule: count_loop.induct)
  case (1 indexes this h i mn)
  show ?case
  proof (cases "i < rows this \<and> i < length (matrix this)")
    case True
    have "count_loop indexes this' h' (Suc i)
            (Math_min (array_get (h ! (matrix this ! i)) (array_index indexes i)) mn) =
          count_loop indexes this h (Suc i)
            (Math_min (array_get (h ! (matrix this ! i)) (array_index indexes i)) mn)"
      using "1.IH" [of "matrix this ! i"] True "1.prems" by (simp add: array_index_def)
    then show ?thesis
      using True "1.prems"
      by (subst count_loop.simps, subst (2) count_loop.simps) (simp add: array_index_def)
  next
    case False
    then show ?thesis
      using "1.prems"
      by (subst count_loop.simps, subst (2) count_loop.simps) (auto simp: array_index_def)
  qed
qed

lemma example_exported_eq:
  "example_exported =
     (\<lparr>json_type = Some ''CountMinSketch'', json_matrix = Some [2, 3],
       json_seed = Some getDefaultSeed, json_N = Some (Num 1), json_rows = Some 2,
       json_columns = Some 3\<rparr>,
      [[Num 0, Num 0, Num 1], [Num 1, Num 0, Num 0],
       [Num 0, Num 0, Num 1], [Num 1, Num 0, Num 0]])"
  by (simp add: example_exported_def example_updated_eq CountMinSketch_export_def alloc_def)

lemma example_updated_count:
  "CountMinSketch_count example_indices 5 (fst (snd example_updated))
     (snd (snd example_updated)) = Inr (Num 1)"
  by (simp add: example_updated_eq CountMinSketch_count_def example_indices_5
        count_loop.simps array_index_def array_get_def)

text \<open>
  C5. Round trip: importing the export of a well-formed sketch \<open>S\<close> succeeds and yields a
  sketch with the seed and the \<open>N\<close> of \<open>S\<close> whose \<open>count(x)\<close> equals that of \<open>S\<close> for
  every element \<open>x\<close>, whatever the index generator returns.
\<close>

theorem export_import_round_trip:
  assumes wf: "wf this h"
  shows "\<exists>j h1 copy h2.
           CountMinSketch_export this h = (j, h1) \<and>
           CountMinSketch_import j h1 = (Inr copy, h2) \<and>
           seed copy = seed this \<and> N copy = N this \<and>
           (\<forall>x. CountMinSketch_count getDistinctIndices x copy h2 =
                  CountMinSketch_count getDistinctIndices x this h)"
proof -
  let ?d = "length (matrix this)"
  define j where "j = \<lparr>json_type = Some ''CountMinSketch'',
      json_matrix = Some [length h ..< length h + ?d],
      json_seed = Some (seed this), json_N = Some (N this),
      json_rows = Some (rows this), json_columns = Some (columns this)\<rparr>"
  define h1 where "h1 = h @ map (\<lambda>a. h ! a) (matrix this)"
  define copy where "copy = \<lparr>columns = columns this, rows = rows this,
      matrix = [length h ..< length h + ?d], N = N this, seed = seed this\<rparr>"
  define h2 where "h2 = h1 @ replicate (rows this) (replicate (columns this) (Num 0))"
  have valid: "\<forall>a\<in>set (matrix this). a < length h"
    using wf by (simp add: wf_def list_all_iff)
  have exp: "CountMinSketch_export this h = (j, h1)"
    by (simp add: CountMinSketch_export_def cloneField_eq [OF valid] j_def h1_def)
  have imp: "CountMinSketch_import j h1 = (Inr copy, h2)"
    by (simp add: CountMinSketch_import_def assertFields_def j_def new_eq copy_def h2_def)
  have rows_eq: "\<forall>k<?d. h2 ! (matrix copy ! k) = h ! (matrix this ! k)"
    using valid by (simp add: copy_def h2_def h1_def nth_append)
  have "CountMinSketch_count getDistinctIndices x copy h2 =
        CountMinSketch_count getDistinctIndices x this h" for x
  proof -
    have "count_loop indexes copy h2 0 Infinity = count_loop indexes this h 0 Infinity"
      for indexes
      by (rule count_loop_cong) (use rows_eq in \<open>simp_all add: copy_def\<close>)
    then show ?thesis
      by (simp add: CountMinSketch_count_def copy_def split: sum.split)
  qed
  with exp imp show ?thesis
    by (auto simp: copy_def)
qed

theorem export_import_round_trip_witness:
  "wf (fst (snd example_updated)) (snd (snd example_updated)) \<and>
   (\<exists>j h1 copy h2.
      CountMinSketch_export (fst (snd example_updated)) (snd (snd example_updated)) = (j, h1) \<and>
      CountMinSketch_import j h1 = (Inr copy, h2) \<and>
      seed copy = getDefaultSeed \<and> N copy = Num 1 \<and>
      CountMinSketch_count example_indices 5 copy h2 = Inr (Num 1))"
proof -
  have s: "seed (fst (snd example_updated)) = getDefaultSeed"
    and n: "N (fst (snd example_updated)) = Num 1"
    by (simp_all add: example_updated_eq)
  from export_import_round_trip [OF example_updated_wf_own, of example_indices]
  obtain j h1 copy h2 where r:
    "CountMinSketch_export (fst (snd example_updated)) (snd (snd example_updated)) = (j, h1)"
    "CountMinSketch_import j h1 = (Inr copy, h2)"
    "seed copy = seed (fst (snd example_updated))" "N copy = N (fst (snd example_updated))"
    "\<forall>x. CountMinSketch_count example_indices x copy h2 =
         CountMinSketch_count example_indices x (fst (snd example_updated))
           (snd (snd example_updated))"
    by blast
  from r(5) have "CountMinSketch_count example_indices 5 copy h2 = Inr (Num 1)"
    by (simp add: example_updated_count)
  with r(1-4) s n example_updated_wf_own show ?thesis
    by (metis (no_types, lifting))
qed

text \<open>
  C8. The import function fails with the FormatError exactly when the type tag of the
  payload is not "CountMinSketch" or one of \<open>_matrix\<close>, \<open>_seed\<close>, \<open>_N\<close>, \<open>_rows\<close>,
  \<open>_columns\<close> is missing, and then leaves the store as it was; on every other payload it
  returns a sketch, with the fields of the payload.
\<close>

theorem import_fails_on_bad_format_only:
  "(fst (CountMinSketch_import j h) = Inl FormatError) =
     (json_type j \<noteq> Some ''CountMinSketch'' \<or> json_matrix j = None \<or> json_seed j = None \<or>
      json_N j = None \<or> json_rows j = None \<or> json_columns j = None) \<and>
   (CountMinSketch_import j h = (Inl FormatError, h) \<or>
    (\<exists>sketch h'. CountMinSketch_import j h = (Inr sketch, h') \<and>
       Some (columns sketch) = json_columns j \<and> Some (rows sketch) = json_rows j \<and>
       Some (matrix sketch) = json_matrix j \<and> Some (N sketch) = json_N j \<and>
       Some (seed sketch) = json_seed j))"
proof (cases "json_type j \<noteq> Some ''CountMinSketch'' \<or> \<not> assertFields j")
  case True
  then show ?thesis
    by (auto simp: CountMinSketch_import_def assertFields_def)
next
  case False
  then obtain m s n d w where f: "json_type j = Some ''CountMinSketch''"
    "json_matrix j = Some m" "json_seed j = Some s" "json_N j = Some n"
    "json_rows j = Some d" "json_columns j = Some w"
    by (auto simp: assertFields_def)
  then show ?thesis
    by (simp add: CountMinSketch_import_def assertFields_def new_eq)
qed

theorem import_fails_on_bad_format_only_witness:
  "json_type (fst example_exported) = Some ''CountMinSketch'' \<and>
   json_matrix (fst example_exported) = Some [2, 3] \<and>
   json_seed (fst example_exported) = Some getDefaultSeed \<and>
   json_N (fst example_exported) = Some (Num 1) \<and>
   json_rows (fst example_exported) = Some 2 \<and>
   json_columns (fst example_exported) = Some 3 \<and>
   (\<exists>sketch h'.
      CountMinSketch_import (fst example_exported) (snd example_exported) = (Inr sketch, h') \<and>
      matrix sketch = [2, 3] \<and> N sketch = Num 1 \<and> seed sketch = getDefaultSeed) \<and>
   fst (CountMinSketch_import ((fst example_exported)\<lparr>json_seed := None\<rparr>)
          (snd example_exported)) = Inl FormatError \<and>
   fst (CountMinSketch_import ((fst example_exported)\<lparr>json_type := Some ''BloomFilter''\<rparr>)
          (snd example_exported)) = Inl FormatError"
proof -
  have fields: "json_type (fst example_exported) = Some ''CountMinSketch''"
    "json_matrix (fst example_exported) = Some [2, 3]"
    "json_seed (fst example_exported) = Some getDefaultSeed"
    "json_N (fst example_exported) = Some (Num 1)"
    "json_rows (fst example_exported) = Some 2"
    "json_columns (fst example_exported) = Some 3"
    by (simp_all add: example_exported_eq)
  from import_fails_on_bad_format_only [of "fst example_exported" "snd example_exported"] fields
  have good: "\<exists>sketch h'.
      CountMinSketch_import (fst example_exported) (snd example_exported) = (Inr sketch, h') \<and>
      matrix sketch = [2, 3] \<and> N sketch = Num 1 \<and> seed sketch = getDefaultSeed"
    by auto
  from import_fails_on_bad_format_only
    [of "(fst example_exported)\<lparr>json_seed := None\<rparr>" "snd example_exported"]
  have bad1: "fst (CountMinSketch_import ((fst example_exported)\<lparr>json_seed := None\<rparr>)
          (snd example_exported)) = Inl FormatError"
    by simp
  from import_fails_on_bad_format_only
    [of "(fst example_exported)\<lparr>json_type := Some ''BloomFilter''\<rparr>" "snd example_exported"]
  have bad2: "fst (CountMinSketch_import
      ((fst example_exported)\<lparr>json_type := Some ''BloomFilter''\<rparr>)
          (snd example_exported)) = Inl FormatError"
    by simp
  from fields good bad1 bad2 show ?thesis by blast
qed

subsection \<open>create\<close>

lemma exp_1_lower: "(17403456103284421 / 6402373705728000 :: real) \<le> exp 1"
proof -
  have s: "(\<lambda>n. (1::real) ^ n /\<^sub>R fact n) sums exp 1" by (rule exp_converges)
  then have "suminf (\<lambda>n. (1::real) ^ n /\<^sub>R fact n) = exp 1" by (rule sums_unique [symmetric])
  moreover have "sum (\<lambda>n. (1::real) ^ n /\<^sub>R fact n) {..<19} \<le> suminf (\<lambda>n. (1::real) ^ n /\<^sub>R fact n)"
    using s by (intro sum_le_suminf) (auto simp: sums_iff)
  moreover have "sum (\<lambda>n. (1::real) ^ n /\<^sub>R fact n) {..<19} = 17403456103284421 / 6402373705728000"
    by (simp add: eval_nat_numeral lessThan_Suc field_simps)
  ultimately show ?thesis by simp
qed

lemma Math_E_less_e: "Math_E < exp 1"
proof -
  have "Math_E < 17403456103284421 / 6402373705728000"
    by (simp add: Math_E_def)
  with exp_1_lower show ?thesis by linarith
qed

lemma real_ceiling_at_Math_E_quarter: "\<lceil>exp 1 / (Math_E / 4)\<rceil> = (5::int)"
proof -
  have pos: "0 < Math_E" by (simp add: Math_E_def)
  have "4 < exp 1 / (Math_E / 4)"
    using Math_E_less_e pos by (simp add: field_simps)
  moreover have "exp 1 / (Math_E / 4) \<le> 5"
  proof -
    have "exp 1 \<le> (3::real)" by (rule exp_le)
    moreover have "(3::real) \<le> 5 * (Math_E / 4)" by (simp add: Math_E_def)
    ultimately show ?thesis using pos by (simp add: field_simps)
  qed
  ultimately show ?thesis by (simp add: ceiling_eq_iff)
qed

lemma array_length_of_nat: "array_length (Num (of_nat n)) = Some n"
  by (simp add: array_length_def)

text \<open>
  C7, as the code has it. \<open>create(epsilon, delta)\<close> computes \<open>Math.ceil(Math.E /
  epsilon)\<close> and \<open>Math.ceil(Math.log(1 / delta))\<close> in double arithmetic (with the defaults
  for omitted arguments); whenever these are natural numbers \<open>w\<close> and \<open>d\<close>, it returns a
  well-formed sketch with exactly \<open>w\<close> columns and \<open>d\<close> rows, all cells 0 and \<open>N = 0\<close>.
\<close>

theorem create_sizes:
  fixes epsilon delta :: "number option"
  defines "eps \<equiv> (case epsilon of None \<Rightarrow> round_double (1 / 1000) | Some x \<Rightarrow> x)"
    and "del \<equiv> (case delta of None \<Rightarrow> round_double (999 / 1000) | Some x \<Rightarrow> x)"
  assumes w: "Math_ceil (divide_number (Num Math_E) eps) = Num (of_nat w)"
    and d: "Math_ceil (Math_log (divide_number (Num 1) del)) = Num (of_nat d)"
  shows "\<exists>sketch h'.
           CountMinSketch_create Math_log epsilon delta h = Inr (sketch, h') \<and>
           columns sketch = w \<and> rows sketch = d \<and>
           matrix_of sketch h' = replicate d (replicate w (Num 0)) \<and>
           N sketch = Num 0 \<and> wf sketch h'"
proof -
  obtain sketch h' where new: "CountMinSketch_new (Some w) (Some d) None h = (sketch, h')"
    by (cases "CountMinSketch_new (Some w) (Some d) None h")
  have "CountMinSketch_create Math_log epsilon delta h = Inr (sketch, h')"
    using w d new
    by (simp add: CountMinSketch_create_def Let_def eps_def del_def array_length_of_nat)
  moreover have "columns sketch = w" "rows sketch = d" "N sketch = Num 0"
    using new by (auto simp: new_eq)
  ultimately show ?thesis
    using new_matrix_of [OF new] new_wf [OF new] by blast
qed

lemma create_example_w:
  "Math_ceil (divide_number (Num Math_E) (Num (Math_E / 4))) = Num (of_nat 4)"
  by (simp add: Math_E_def)

lemma create_example_d:
  "Math_ceil (example_log (divide_number (Num 1) (Num (1 / 2)))) = Num (of_nat 1)"
  by (simp add: example_log_def)

theorem create_sizes_witness:
  "Math_ceil (divide_number (Num Math_E) (Num (Math_E / 4))) = Num (of_nat 4) \<and>
   Math_ceil (example_log (divide_number (Num 1) (Num (1 / 2)))) = Num (of_nat 1) \<and>
   (\<exists>sketch h'.
      CountMinSketch_create example_log (Some (Num (Math_E / 4))) (Some (Num (1 / 2))) [] =
        Inr (sketch, h') \<and>
      columns sketch = 4 \<and> rows sketch = 1 \<and>
      matrix_of sketch h' = [[Num 0, Num 0, Num 0, Num 0]] \<and> N sketch = Num 0)"
proof -
  have w: "Math_ceil (divide_number (Num Math_E)
      (case Some (Num (Math_E / 4)) of None \<Rightarrow> round_double (1 / 1000) | Some x \<Rightarrow> x)) =
      Num (of_nat 4)"
    using create_example_w by simp
  have d: "Math_ceil (example_log (divide_number (Num 1)
      (case Some (Num (1 / 2)) of None \<Rightarrow> round_double (999 / 1000) | Some x \<Rightarrow> x))) =
      Num (of_nat 1)"
    using create_example_d by simp
  have m: "replicate 1 (replicate 4 (Num 0)) = [[Num 0, Num 0, Num 0, Num 0]]"
    by (simp add: eval_nat_numeral)
  from create_sizes [where Math_log = example_log and h = "[]", OF w d]
  have "\<exists>sketch h'.
      CountMinSketch_create example_log (Some (Num (Math_E / 4))) (Some (Num (1 / 2))) [] =
        Inr (sketch, h') \<and>
      columns sketch = 4 \<and> rows sketch = 1 \<and>
      matrix_of sketch h' = [[Num 0, Num 0, Num 0, Num 0]] \<and> N sketch = Num 0"
    unfolding m by blast
  with create_example_w create_example_d show ?thesis by blast
qed

text \<open>
  C7 as stated fails: for \<open>epsilon = Math.E / 4\<close>, a double between 0 and 1, the quotient
  \<open>Math.E / epsilon\<close> is exactly 4 and the sketch has 4 columns, while the real number
  \<open>e / epsilon\<close> lies above 4, because \<open>Math.E\<close> is below \<open>e\<close>, and its ceiling is 5.
\<close>

theorem create_columns_counterexample:
  "0 < Math_E / 4 \<and> Math_E / 4 < 1 \<and> finite_double (Num (Math_E / 4)) \<and>
   CountMinSketch_create example_log (Some (Num (Math_E / 4))) (Some (Num (1 / 2))) [] =
     Inr (\<lparr>columns = 4, rows = 1, matrix = [0], N = Num 0, seed = getDefaultSeed\<rparr>,
          [[Num 0, Num 0, Num 0, Num 0]]) \<and>
   \<lceil>exp 1 / (Math_E / 4)\<rceil> = (5::int)"
proof -
  have "0 < Math_E / 4" "Math_E / 4 < 1"
    by (simp_all add: Math_E_def)
  moreover have "finite_double (Num (Math_E / 4))"
    by (simp add: Math_E_def double_eval)
  moreover have "CountMinSketch_create example_log (Some (Num (Math_E / 4)))
      (Some (Num (1 / 2))) [] =
     Inr (\<lparr>columns = 4, rows = 1, matrix = [0], N = Num 0, seed = getDefaultSeed\<rparr>,
          [[Num 0, Num 0, Num 0, Num 0]])"
    using create_example_w create_example_d
    by (simp add: CountMinSketch_create_def Let_def array_length_def new_eq upt_rec
          eval_nat_numeral)
  ultimately show ?thesis
    using real_ceiling_at_Math_E_quarter by blast
qed

end
